theory Spec2Isabelle
  imports Main "HOL-Library.Sublist"
begin

section \<open>Snapshot ingestion pipeline of \<^verbatim>\<open>core/scripts/players_stats_5k.py\<close>\<close>

text \<open>
  A shallow embedding of \<^verbatim>\<open>fetch_player_stats\<close>, \<^verbatim>\<open>load_dropped_players\<close>,
  \<^verbatim>\<open>append_dropped_player\<close> and \<^verbatim>\<open>build_database\<close>. Python strings are
  \<open>string\<close> (lists of 8-bit characters, read as ASCII), Python integers are \<open>int\<close>,
  exceptions are values of the type \<open>exn\<close>, and everything the script does to the
  outside (HTTP requests, \<^verbatim>\<open>time.sleep\<close>, \<^verbatim>\<open>print\<close>, the file system) is
  threaded through a record \<open>world\<close>.
\<close>

subsection \<open>Python builtins used by the script\<close>

text \<open>
  \<^verbatim>\<open>str.strip()\<close> removes the characters for which \<^verbatim>\<open>str.isspace\<close> holds; among
  the ASCII characters these are 0x09 to 0x0D, 0x1C to 0x1F and the space.
\<close>

definition is_space :: "char \<Rightarrow> bool" where
  "is_space c \<longleftrightarrow> c \<in> set [CHR 0x09, CHR 0x0A, CHR 0x0B, CHR 0x0C, CHR 0x0D,
                          CHR 0x1C, CHR 0x1D, CHR 0x1E, CHR 0x1F, CHR 0x20]"

definition py_strip :: "string \<Rightarrow> string" where
  "py_strip s = rev (dropWhile is_space (rev (dropWhile is_space s)))"

text \<open>
  \<^verbatim>\<open>int(s)\<close> on an ASCII string, base 10, as CPython 3.11 reads it: whitespace (0x09
  to 0x0D and the space, not 0x1C to 0x1F) is skipped, one sign is allowed, then comes
  the longest run of decimal digits and underscores, which may not start or end with
  an underscore nor hold two in a row, and must hold a digit. A run of more than 4300
  digits exceeds the interpreter's limit (the script never lifts it), whatever follows
  the run. Otherwise only whitespace may follow. Every failure is a
  \<^verbatim>\<open>ValueError\<close>.
\<close>

definition is_c_space :: "char \<Rightarrow> bool" where
  "is_c_space c \<longleftrightarrow> c \<in> set [CHR 0x09, CHR 0x0A, CHR 0x0B, CHR 0x0C, CHR 0x0D, CHR 0x20]"

definition digit_of :: "char \<Rightarrow> nat option" where
  "digit_of c = (let n = (of_char c :: nat) in if 48 \<le> n \<and> n \<le> 57 then Some (n - 48) else None)"

text \<open>\<open>scan_digits cs prev n acc\<close> reads the run: \<open>prev\<close> says that the last character
  was an underscore, \<open>n\<close> counts the digits, \<open>acc\<close> is their value. The result is the
  count, the value and what follows the run; \<open>None\<close> is a misplaced underscore.\<close>

fun scan_digits :: "string \<Rightarrow> bool \<Rightarrow> nat \<Rightarrow> nat \<Rightarrow> (nat \<times> nat \<times> string) option" where
  "scan_digits [] prev n acc = (if prev then None else Some (n, acc, []))"
| "scan_digits (c # cs) prev n acc =
     (if c = CHR ''_'' then (if prev then None else scan_digits cs True n acc)
      else case digit_of c of
             Some d \<Rightarrow> scan_digits cs False (Suc n) (10 * acc + d)
           | None \<Rightarrow> (if prev then None else Some (n, acc, c # cs)))"

datatype int_result = Invalid | TooLong nat | Value int

definition scan_int :: "string \<Rightarrow> int_result" where
  "scan_int s =
     (let t = dropWhile is_c_space s;
          negative = (t \<noteq> [] \<and> hd t = CHR ''-'');
          u = (if t \<noteq> [] \<and> (hd t = CHR ''-'' \<or> hd t = CHR ''+'') then tl t else t)
      in if u \<noteq> [] \<and> hd u = CHR ''_'' then Invalid
         else case scan_digits u False 0 0 of
                None \<Rightarrow> Invalid
              | Some (n, v, rest) \<Rightarrow>
                  if n = 0 then Invalid
                  else if int n > 4300 then TooLong n
                  else if dropWhile is_c_space rest \<noteq> [] then Invalid
                  else Value (if negative then - int v else int v))"

definition py_int :: "string \<Rightarrow> int option" where
  "py_int s = (case scan_int s of Value v \<Rightarrow> Some v | Invalid \<Rightarrow> None | TooLong n \<Rightarrow> None)"

subsection \<open>Schema: skill and boss names\<close>

definition SKILLS :: "string list" where
  "SKILLS = [''overall'', ''attack'', ''defence'', ''strength'', ''hitpoints'', ''ranged'',
     ''prayer'', ''magic'', ''cooking'', ''woodcutting'', ''fletching'', ''fishing'',
     ''firemaking'', ''crafting'', ''smithing'', ''mining'', ''herblore'', ''agility'',
     ''thieving'', ''slayer'', ''farming'', ''runecraft'', ''hunter'', ''construction'',
     ''sailing'']"

definition BOSSES :: "string list" where
  "BOSSES = [''abyssal_sire'', ''alchemical_hydra'', ''amoxliatl'', ''araxxor'', ''artio'',
     ''barrows_chests'', ''bryophyta'', ''callisto'', ''calvarion'', ''cerberus'',
     ''chambers_of_xeric'', ''chambers_of_xeric_challenge_mode'', ''chaos_elemental'',
     ''chaos_fanatic'', ''commander_zilyana'', ''corporeal_beast'', ''crazy_archaeologist'',
     ''dagannoth_prime'', ''dagannoth_rex'', ''dagannoth_supreme'', ''deranged_archaeologist'',
     ''doom_of_mokhaiotl'', ''duke_sucellus'', ''general_graardor'', ''giant_mole'',
     ''grotesque_guardians'', ''hespori'', ''kalphite_queen'', ''king_black_dragon'', ''kraken'',
     ''kree_arra'', ''kril_tsutsaroth'', ''lunar_chests'', ''mimic'', ''nex'', ''nightmare'',
     ''phosanis_nightmare'', ''obor'', ''phantom_muspah'', ''sarachnis'', ''scorpia'',
     ''scurrius'', ''skotizo'', ''sol_heredit'', ''spindel'', ''tempoross'', ''gauntlet'',
     ''corrupted_gauntlet'', ''hueycoatl'', ''leviathan'', ''royal_titans'', ''whisperer'',
     ''theatre_of_blood'', ''theatre_of_blood_hard_mode'', ''thermonuclear_smoke_devil'',
     ''tombs_of_amascut'', ''tombs_of_amascut_expert_mode'', ''tzkal_zuk'', ''tztok_jad'',
     ''vardorvis'', ''venenatis'', ''vetion'', ''vorkath'', ''wintertodt'', ''yama'',
     ''zalcano'', ''zulrah'']"

subsection \<open>Decoded entries\<close>

record skill_entry =
  s_rank :: int
  s_level :: int
  s_xp :: int

record boss_entry =
  b_rank :: "int option"
  b_kc :: "int option"

text \<open>
  The body of the boss loop of \<^verbatim>\<open>fetch_player_stats\<close> for one row: a row shorter
  than two fields gives the placeholder; otherwise the first two fields are parsed
  independently (\<^verbatim>\<open>except Exception\<close> turns a failed parse into \<^verbatim>\<open>None\<close>),
  a negative rank becomes \<^verbatim>\<open>None\<close> and a negative kill count becomes 0.
\<close>

definition decode_boss_row :: "string list \<Rightarrow> boss_entry" where
  "decode_boss_row row =
     (if length row < 2 then \<lparr>b_rank = None, b_kc = None\<rparr>
      else
        let rank_str = row ! 0;
            kc_str = row ! 1;
            rank = py_int rank_str;
            kc = py_int kc_str;
            rank = (case rank of Some r \<Rightarrow> if r < 0 then None else Some r | None \<Rightarrow> None);
            kc = (case kc of Some k \<Rightarrow> if k < 0 then Some 0 else Some k | None \<Rightarrow> None)
        in \<lparr>b_rank = rank, b_kc = kc\<rparr>)"

subsection \<open>Exceptions, messages and the outside world\<close>

text \<open>
  The exception classes that reach a handler of the script. All are subclasses of
  \<^verbatim>\<open>Exception\<close>; only \<open>RequestException\<close> is caught by the retry loop and only
  \<open>ValueError\<close> by the first handler of \<^verbatim>\<open>build_database\<close>. The argument of
  \<open>ValueError\<close>, \<open>RuntimeError\<close> and \<open>KeyError\<close> is the message (\<^verbatim>\<open>str(e)\<close>
  for the first two, the missing key for the last). \<open>CsvError\<close> is \<^verbatim>\<open>csv.Error\<close>,
  which is not a \<^verbatim>\<open>ValueError\<close>; \<open>EmptyDataError\<close> is the exception of
  \<^verbatim>\<open>pandas.read_csv\<close> on a file without data, which no handler of the script
  meets.
\<close>

datatype req_failure = NetworkFailure string | HTTPError nat

datatype exn =
    RequestException req_failure
  | ValueError string
  | RuntimeError string
  | KeyError string
  | CsvError string
  | EmptyDataError string
  | OtherException string

text \<open>What one call of \<^verbatim>\<open>requests.get(url, timeout=10)\<close> does: it raises a
  \<^verbatim>\<open>RequestException\<close> (timeout, connection error), or it returns a response with
  a status code and a body. The exceptions of \<^verbatim>\<open>requests\<close> that are
  \<^verbatim>\<open>ValueError\<close>s as well report a malformed URL; the URL here is fixed and well
  formed, and they are left out.\<close>

datatype outcome = Raise string | Response nat string

text \<open>Lines written by \<^verbatim>\<open>print\<close>, kept as events rather than formatted text.\<close>

datatype event =
    Fetching string
  | Warn string int int req_failure int
  | AllFailed string int req_failure
  | InfoDropped string
  | ErrorSkip string exn

text \<open>
  The state outside the interpreter: how many HTTP requests were sent, the arguments
  of \<^verbatim>\<open>time.sleep\<close> so far (oldest first), what was printed, and the files. A
  CSV file is the list of the records written to it (a record of the dropped-player
  store is one cell); \<open>None\<close> is a file that does not exist.
\<close>

record world =
  requests :: nat
  slept :: "int list"
  printed :: "event list"
  files :: "string \<rightharpoonup> string list"

text \<open>
  What the script reads from its environment. \<open>http_get n url\<close> is the outcome of
  the request \<open>url\<close> when \<open>n\<close> requests were sent before it; \<open>read_csv\<close> is
  \<^verbatim>\<open>pandas.read_csv\<close> on the records of a file that has some, giving for each
  column name the column's cells after \<^verbatim>\<open>astype(str)\<close>; \<open>today\<close> is
  \<^verbatim>\<open>date.today().isoformat()\<close>.
\<close>

type_synonym frame = "string \<rightharpoonup> string list"

record env =
  http_get :: "nat \<Rightarrow> string \<Rightarrow> outcome"
  read_csv :: "string list \<Rightarrow> exn + frame"
  today :: string
  DATA_DIR :: string

definition DROPPED_PLAYERS_PATH :: "env \<Rightarrow> string" where
  "DROPPED_PLAYERS_PATH e = DATA_DIR e @ ''/dropped_players.csv''"

subsection \<open>The request URL\<close>

definition hex_digit :: "nat \<Rightarrow> char" where
  "hex_digit n = ''0123456789ABCDEF'' ! n"

definition unreserved :: "char \<Rightarrow> bool" where
  "unreserved c \<longleftrightarrow>
     (let n = (of_char c :: nat) in
        (65 \<le> n \<and> n \<le> 90) \<or> (97 \<le> n \<and> n \<le> 122) \<or> (48 \<le> n \<and> n \<le> 57)
        \<or> c \<in> set ''_.-~'')"

definition quote_plus :: "string \<Rightarrow> string" where
  "quote_plus s =
     concat (map (\<lambda>c. if unreserved c then [c]
                        else if c = CHR '' '' then ''+''
                        else [CHR ''%'', hex_digit (of_char c div 16), hex_digit (of_char c mod 16)]) s)"

definition HISCORES_URL :: "string \<Rightarrow> string" where
  "HISCORES_URL name =
     ''https://secure.runescape.com/m=hiscore_oldschool/index_lite.ws?player='' @ name"

subsection \<open>The retry loop of \<^verbatim>\<open>fetch_player_stats\<close>\<close>

definition not_on_hiscores :: "string \<Rightarrow> string" where
  "not_on_hiscores player_name =
     ''Player '' @ [CHR 0x27] @ player_name @ [CHR 0x27] @ '' not on hiscores.''"

text \<open>
  The \<^verbatim>\<open>try\<close> block of one attempt. \<open>Inr text\<close> is the \<^verbatim>\<open>break\<close>;
  \<open>Inl (Inl x)\<close> is an exception the \<^verbatim>\<open>except\<close> clause does not catch (the
  \<^verbatim>\<open>ValueError\<close> of a 404); \<open>Inl (Inr f)\<close> is a \<^verbatim>\<open>RequestException\<close>,
  raised by the request itself or by \<^verbatim>\<open>raise_for_status\<close> on a status from
  400 to 599.
\<close>

definition try_request :: "outcome \<Rightarrow> string \<Rightarrow> (exn + req_failure) + string" where
  "try_request out player_name =
     (case out of
        Raise msg \<Rightarrow> Inl (Inr (NetworkFailure msg))
      | Response status_code text \<Rightarrow>
          if status_code = 404 then Inl (Inl (ValueError (not_on_hiscores player_name)))
          else if 400 \<le> status_code \<and> status_code < 600 then Inl (Inr (HTTPError status_code))
          else Inr text)"

text \<open>
  Lines 126 to 159: \<^verbatim>\<open>for attempt in range(1, max_retries + 1)\<close>, from
  \<open>attempt\<close> on. The \<^verbatim>\<open>else\<close> of the loop runs when the range is exhausted.
  \<^verbatim>\<open>time.sleep\<close> raises \<^verbatim>\<open>ValueError\<close> on a negative argument.
\<close>

function retry_loop ::
  "env \<Rightarrow> string \<Rightarrow> int \<Rightarrow> int \<Rightarrow> int \<Rightarrow> exn option \<Rightarrow> world \<Rightarrow> (exn + string) \<times> world" where
  "retry_loop e player_name max_retries base_delay attempt last_exc w =
     (if attempt > max_retries then
        (Inl (case last_exc of
                Some x \<Rightarrow> x
              | None \<Rightarrow> RuntimeError (''Unexpected error fetching stats for '' @ player_name)), w)
      else
        let url = HISCORES_URL (quote_plus player_name);
            w1 = w\<lparr>requests := requests w + 1\<rparr>
        in case try_request (http_get e (requests w) url) player_name of
             Inr text \<Rightarrow> (Inr text, w1)
           | Inl (Inl x) \<Rightarrow> (Inl x, w1)
           | Inl (Inr f) \<Rightarrow>
               if attempt = max_retries then
                 (Inl (RequestException f),
                  w1\<lparr>printed := printed w1 @ [AllFailed player_name max_retries f]\<rparr>)
               else
                 let delay = base_delay * attempt;
                     w2 = w1\<lparr>printed := printed w1 @
                            [Warn player_name attempt max_retries f delay]\<rparr>
                 in if delay < 0 then (Inl (ValueError ''sleep length must be non-negative''), w2)
                    else retry_loop e player_name max_retries base_delay (attempt + 1)
                           (Some (RequestException f)) (w2\<lparr>slept := slept w2 @ [delay]\<rparr>))"
  by pat_completeness auto
termination
  by (relation "measure (\<lambda>(e, player_name, max_retries, base_delay, attempt, last_exc, w).
                  nat (max_retries + 1 - attempt))") auto

declare retry_loop.simps [simp del]

subsection \<open>\<^verbatim>\<open>csv.reader\<close>\<close>

text \<open>
  \<^verbatim>\<open>list(csv.reader(lines))\<close> with the default dialect (delimiter comma, quote
  character \<^verbatim>\<open>"\<close>, doubled quotes, not strict, no escape character), as the
  reader of CPython 3.11 works: every character of a line, then an end-of-line mark
  (\<open>None\<close>), runs through \<open>parse_process_char\<close>; a record ends when the state is
  back at \<open>START_RECORD\<close> after a line. A field may not grow beyond 131072
  characters, and after a carriage return or line feed that ended a record only
  further ones may follow in the line: both are a \<^verbatim>\<open>csv.Error\<close>, and the whole
  call raises.
\<close>

datatype csv_state =
  START_RECORD | START_FIELD | IN_FIELD | IN_QUOTED_FIELD | QUOTE_IN_QUOTED_FIELD | EAT_CRNL

record reader =
  cstate :: csv_state
  cfields :: "string list"
  cfield :: string

definition parse_reset :: reader where
  "parse_reset = \<lparr>cstate = START_RECORD, cfields = [], cfield = []\<rparr>"

definition parse_add_char :: "char \<Rightarrow> reader \<Rightarrow> exn + reader" where
  "parse_add_char c r =
     (if int (length (cfield r)) \<ge> 131072 then Inl (CsvError ''field larger than field limit (131072)'')
      else Inr (r\<lparr>cfield := cfield r @ [c]\<rparr>))"

definition parse_save_field :: "reader \<Rightarrow> reader" where
  "parse_save_field r = r\<lparr>cfields := cfields r @ [cfield r], cfield := []\<rparr>"

definition is_newline :: "char \<Rightarrow> bool" where
  "is_newline c \<longleftrightarrow> c = CHR 0x0A \<or> c = CHR 0x0D"

definition end_of_field :: "char option \<Rightarrow> reader \<Rightarrow> exn + reader" where
  "end_of_field c r =
     Inr ((parse_save_field r)\<lparr>cstate := (if c = None then START_RECORD else EAT_CRNL)\<rparr>)"

definition start_field :: "char option \<Rightarrow> reader \<Rightarrow> exn + reader" where
  "start_field c r =
     (case c of
        None \<Rightarrow> end_of_field c r
      | Some ch \<Rightarrow>
          if is_newline ch then end_of_field c r
          else if ch = CHR 0x22 then Inr (r\<lparr>cstate := IN_QUOTED_FIELD\<rparr>)
          else if ch = CHR '','' then Inr ((parse_save_field r)\<lparr>cstate := START_FIELD\<rparr>)
          else map_sum id (\<lambda>r'. r'\<lparr>cstate := IN_FIELD\<rparr>) (parse_add_char ch r))"

definition parse_process_char :: "char option \<Rightarrow> reader \<Rightarrow> exn + reader" where
  "parse_process_char c r =
     (case cstate r of
        START_RECORD \<Rightarrow>
          (case c of
             None \<Rightarrow> Inr r
           | Some ch \<Rightarrow> if is_newline ch then Inr (r\<lparr>cstate := EAT_CRNL\<rparr>) else start_field c r)
      | START_FIELD \<Rightarrow> start_field c r
      | IN_FIELD \<Rightarrow>
          (case c of
             None \<Rightarrow> end_of_field c r
           | Some ch \<Rightarrow>
               if is_newline ch then end_of_field c r
               else if ch = CHR '','' then Inr ((parse_save_field r)\<lparr>cstate := START_FIELD\<rparr>)
               else parse_add_char ch r)
      | IN_QUOTED_FIELD \<Rightarrow>
          (case c of
             None \<Rightarrow> Inr r
           | Some ch \<Rightarrow>
               if ch = CHR 0x22 then Inr (r\<lparr>cstate := QUOTE_IN_QUOTED_FIELD\<rparr>)
               else parse_add_char ch r)
      | QUOTE_IN_QUOTED_FIELD \<Rightarrow>
          (case c of
             None \<Rightarrow> end_of_field c r
           | Some ch \<Rightarrow>
               if ch = CHR 0x22 then
                 map_sum id (\<lambda>r'. r'\<lparr>cstate := IN_QUOTED_FIELD\<rparr>) (parse_add_char ch r)
               else if ch = CHR '','' then Inr ((parse_save_field r)\<lparr>cstate := START_FIELD\<rparr>)
               else if is_newline ch then end_of_field c r
               else map_sum id (\<lambda>r'. r'\<lparr>cstate := IN_FIELD\<rparr>) (parse_add_char ch r))
      | EAT_CRNL \<Rightarrow>
          (case c of
             None \<Rightarrow> Inr (r\<lparr>cstate := START_RECORD\<rparr>)
           | Some ch \<Rightarrow>
               if is_newline ch then Inr r
               else Inl (CsvError (''new-line character seen in unquoted field - '' @
                                   ''do you need to open the file with newline='' @
                                   [CHR 0x27, CHR 0x27, CHR ''?'']))))"

fun process_line :: "string \<Rightarrow> reader \<Rightarrow> exn + reader" where
  "process_line [] r = parse_process_char None r"
| "process_line (c # cs) r =
     (case parse_process_char (Some c) r of
        Inl x \<Rightarrow> Inl x
      | Inr r' \<Rightarrow> process_line cs r')"

text \<open>\<open>csv_records lines r records\<close>: the records read so far, the reader in the
  middle of a record or reset. At the end of the input an unfinished record (an open
  quoted field) is returned as it stands.\<close>

fun csv_records :: "string list \<Rightarrow> reader \<Rightarrow> string list list \<Rightarrow> exn + string list list" where
  "csv_records [] r records =
     (if cfield r \<noteq> [] \<or> cstate r = IN_QUOTED_FIELD
      then Inr (records @ [cfields (parse_save_field r)]) else Inr records)"
| "csv_records (line # rest) r records =
     (case process_line line r of
        Inl x \<Rightarrow> Inl x
      | Inr r' \<Rightarrow>
          if cstate r' = START_RECORD then csv_records rest parse_reset (records @ [cfields r'])
          else csv_records rest r' records)"

definition csv_reader :: "string list \<Rightarrow> exn + string list list" where
  "csv_reader lines = csv_records lines parse_reset []"

fun split_at :: "char \<Rightarrow> string \<Rightarrow> string \<Rightarrow> string list" where
  "split_at sep [] cur = [rev cur]"
| "split_at sep (c # cs) cur =
     (if c = sep then rev cur # split_at sep cs [] else split_at sep cs (c # cur))"

text \<open>Line 163: \<^verbatim>\<open>list(csv.reader(text.strip().split("\n")))\<close>.\<close>

definition payload_rows :: "string \<Rightarrow> exn + string list list" where
  "payload_rows text = csv_reader (split_at CHR 0x0A (py_strip text) [])"

subsection \<open>Decoding the response text\<close>

text \<open>
  The messages of the \<^verbatim>\<open>ValueError\<close>s raised while the skill rows are decoded:
  \<^verbatim>\<open>int\<close> reports the \<^verbatim>\<open>repr\<close> of its argument, cut at 200 characters, or
  the number of digits when there are more than 4300 (\<open>int_error\<close>), and the
  unpacking \<^verbatim>\<open>r, lvl, xp = row\<close> reports the number of fields of a row that is too
  short (the wording is CPython's, up to version 3.13).
\<close>

definition lower_hex :: "nat \<Rightarrow> char" where
  "lower_hex n = ''0123456789abcdef'' ! n"

definition repr_char :: "char \<Rightarrow> char \<Rightarrow> string" where
  "repr_char q c =
     (if c = q \<or> c = CHR 0x5C then [CHR 0x5C, c]
      else if c = CHR 0x09 then [CHR 0x5C, CHR ''t'']
      else if c = CHR 0x0A then [CHR 0x5C, CHR ''n'']
      else if c = CHR 0x0D then [CHR 0x5C, CHR ''r'']
      else if (of_char c :: nat) < 32 \<or> (of_char c :: nat) = 127 then
        [CHR 0x5C, CHR ''x'', lower_hex (of_char c div 16), lower_hex (of_char c mod 16)]
      else [c])"

definition py_repr :: "string \<Rightarrow> string" where
  "py_repr s =
     (let q = (if CHR 0x27 \<in> set s \<and> CHR 0x22 \<notin> set s then CHR 0x22 else CHR 0x27)
      in [q] @ concat (map (repr_char q) s) @ [q])"

definition invalid_literal :: "string \<Rightarrow> string" where
  "invalid_literal s = ''invalid literal for int() with base 10: '' @ take 200 (py_repr s)"

fun show_nat :: "nat \<Rightarrow> string" where
  "show_nat n =
     (if n < 10 then [''0123456789'' ! n]
      else show_nat (n div 10) @ [''0123456789'' ! (n mod 10)])"

declare show_nat.simps [simp del]

definition int_error :: "string \<Rightarrow> string" where
  "int_error s =
     (case scan_int s of
        TooLong n \<Rightarrow>
          ''Exceeds the limit (4300 digits) for integer string conversion: value has '' @
          show_nat n @ '' digits; use sys.set_int_max_str_digits() to increase the limit''
      | Invalid \<Rightarrow> invalid_literal s
      | Value v \<Rightarrow> invalid_literal s)"

definition unpack_error :: "nat \<Rightarrow> string" where
  "unpack_error n =
     (if n < 3 then ''not enough values to unpack (expected 3, got '' @ [''012'' ! n] @ '')''
      else ''too many values to unpack (expected 3)'')"

record stats =
  skills :: "string \<rightharpoonup> skill_entry"
  bosses :: "string \<rightharpoonup> boss_entry"

text \<open>\<^verbatim>\<open>for skill, row in zip(SKILLS, skill_rows)\<close>: the three fields are converted
  in the order rank, level, experience, and the first failure is the exception.\<close>

fun skills_loop ::
  "(string \<times> string list) list \<Rightarrow> (string \<rightharpoonup> skill_entry) \<Rightarrow> exn + (string \<rightharpoonup> skill_entry)" where
  "skills_loop [] st = Inr st"
| "skills_loop ((skill, row) # rest) st =
     (if length row \<noteq> 3 then Inl (ValueError (unpack_error (length row)))
      else
        let r = row ! 0; lvl = row ! 1; xp = row ! 2 in
        case py_int r of
          None \<Rightarrow> Inl (ValueError (int_error r))
        | Some rank \<Rightarrow>
            (case py_int lvl of
               None \<Rightarrow> Inl (ValueError (int_error lvl))
             | Some level \<Rightarrow>
                 (case py_int xp of
                    None \<Rightarrow> Inl (ValueError (int_error xp))
                  | Some experience \<Rightarrow>
                      skills_loop rest
                        (st(skill \<mapsto> \<lparr>s_rank = rank, s_level = level, s_xp = experience\<rparr>)))))"

text \<open>\<^verbatim>\<open>for boss_name, row in zip(BOSSES, boss_rows)\<close>.\<close>

fun bosses_loop ::
  "(string \<times> string list) list \<Rightarrow> (string \<rightharpoonup> boss_entry) \<Rightarrow> (string \<rightharpoonup> boss_entry)" where
  "bosses_loop [] boss_stats = boss_stats"
| "bosses_loop ((boss_name, row) # rest) boss_stats =
     bosses_loop rest (boss_stats(boss_name \<mapsto> decode_boss_row row))"

text \<open>The slice \<^verbatim>\<open>xs[-n:]\<close> for \<open>n \<ge> 0\<close>: the last \<open>n\<close> elements, all of \<open>xs\<close>
  when \<open>n = 0\<close> or when \<open>xs\<close> is shorter.\<close>

definition last_rows :: "nat \<Rightarrow> 'a list \<Rightarrow> 'a list" where
  "last_rows n xs = (if n = 0 then xs else drop (length xs - n) xs)"

text \<open>The part of \<^verbatim>\<open>fetch_player_stats\<close> after the retry loop (lines 163 to 203). The dictionary
  \<^verbatim>\<open>stats\<close> has the skill names and \<^verbatim>\<open>"bosses"\<close> as keys; no skill is called
  \<^verbatim>\<open>"bosses"\<close>, so it is a record of the two.\<close>

definition parse_stats :: "string \<Rightarrow> exn + stats" where
  "parse_stats text =
     (case payload_rows text of
        Inl x \<Rightarrow> Inl x
      | Inr rows \<Rightarrow>
          let skill_rows = take (length SKILLS) rows
          in case skills_loop (zip SKILLS skill_rows) Map.empty of
               Inl x \<Rightarrow> Inl x
             | Inr sk \<Rightarrow>
                 let activity_rows = drop (length SKILLS) rows;
                     boss_count = length BOSSES;
                     boss_rows = (if length activity_rows \<ge> boss_count
                                  then last_rows boss_count activity_rows else []);
                     boss_stats = bosses_loop (zip BOSSES boss_rows) Map.empty
                 in Inr \<lparr>skills = sk, bosses = boss_stats\<rparr>)"

definition fetch_player_stats ::
  "env \<Rightarrow> string \<Rightarrow> int \<Rightarrow> int \<Rightarrow> world \<Rightarrow> (exn + stats) \<times> world" where
  "fetch_player_stats e player_name max_retries base_delay w =
     (case retry_loop e player_name max_retries base_delay 1 None w of
        (Inl x, w') \<Rightarrow> (Inl x, w')
      | (Inr text, w') \<Rightarrow> (parse_stats text, w'))"

subsection \<open>The dropped-player store\<close>

text \<open>Lines 226 to 247. \<^verbatim>\<open>os.makedirs\<close> creates directories only, and directories
  are not part of \<open>files\<close>. On a file without records (a zero-byte file)
  \<^verbatim>\<open>pandas.read_csv\<close> raises \<^verbatim>\<open>EmptyDataError\<close>; what it does with other
  files is \<open>read_csv\<close> of the environment.\<close>

definition pd_read_csv :: "env \<Rightarrow> string list \<Rightarrow> exn + frame" where
  "pd_read_csv e records =
     (if records = [] then Inl (EmptyDataError ''No columns to parse from file'')
      else read_csv e records)"

definition load_dropped_players :: "env \<Rightarrow> string \<Rightarrow> world \<Rightarrow> exn + string set" where
  "load_dropped_players e path w =
     (case files w path of
        None \<Rightarrow> Inr {}
      | Some records \<Rightarrow>
          (case pd_read_csv e records of
             Inl x \<Rightarrow> Inl x
           | Inr df \<Rightarrow>
               (case df ''player_name'' of
                  None \<Rightarrow> Inr {}
                | Some column \<Rightarrow> Inr (set column))))"

definition append_dropped_player :: "string \<Rightarrow> string \<Rightarrow> world \<Rightarrow> world" where
  "append_dropped_player path player_name w =
     (case files w path of
        None \<Rightarrow> w\<lparr>files := (files w)(path \<mapsto> [''player_name'', player_name])\<rparr>
      | Some records \<Rightarrow> w\<lparr>files := (files w)(path \<mapsto> records @ [player_name])\<rparr>)"

subsection \<open>\<^verbatim>\<open>build_database\<close>\<close>

datatype cell = CStr string | CInt int | CNone

type_synonym row = "string \<rightharpoonup> cell"

definition opt_cell :: "int option \<Rightarrow> cell" where
  "opt_cell v = (case v of None \<Rightarrow> CNone | Some n \<Rightarrow> CInt n)"

text \<open>\<^verbatim>\<open>for skill in SKILLS: vals = stats[skill]\<close>: a missing key is a
  \<^verbatim>\<open>KeyError\<close>.\<close>

fun skill_columns :: "string list \<Rightarrow> stats \<Rightarrow> row \<Rightarrow> exn + row" where
  "skill_columns [] st row = Inr row"
| "skill_columns (skill # rest) st row =
     (case skills st skill of
        None \<Rightarrow> Inl (KeyError skill)
      | Some vals \<Rightarrow>
          skill_columns rest st
            (row(skill @ ''_level'' \<mapsto> CInt (s_level vals),
                 skill @ ''_xp'' \<mapsto> CInt (s_xp vals),
                 skill @ ''_rank'' \<mapsto> CInt (s_rank vals))))"

text \<open>\<^verbatim>\<open>stats["bosses"].get(boss, {"kc": None, "rank": None})\<close>.\<close>

definition boss_vals :: "stats \<Rightarrow> string \<Rightarrow> boss_entry" where
  "boss_vals st boss =
     (case bosses st boss of None \<Rightarrow> \<lparr>b_rank = None, b_kc = None\<rparr> | Some vals \<Rightarrow> vals)"

fun boss_columns :: "string list \<Rightarrow> stats \<Rightarrow> row \<Rightarrow> row" where
  "boss_columns [] st row = row"
| "boss_columns (boss # rest) st row =
     (let vals = boss_vals st boss in
      boss_columns rest st
        (row(boss @ ''_kc'' \<mapsto> opt_cell (b_kc vals),
             boss @ ''_rank'' \<mapsto> opt_cell (b_rank vals))))"

definition build_row :: "env \<Rightarrow> string \<Rightarrow> stats \<Rightarrow> exn + row" where
  "build_row e name st =
     (let row = [''player_name'' \<mapsto> CStr name, ''date'' \<mapsto> CStr (today e)] in
      case skill_columns SKILLS st row of
        Inl x \<Rightarrow> Inl x
      | Inr row \<Rightarrow> Inr (boss_columns BOSSES st row))"

text \<open>
  The body of \<^verbatim>\<open>for name in player_names\<close> (lines 256 to 292). The \<^verbatim>\<open>try\<close> covers the call of
  \<^verbatim>\<open>fetch_player_stats\<close> only; the row is built after it, outside every handler,
  so an exception raised there leaves \<^verbatim>\<open>build_database\<close> (\<open>Inl\<close>).
\<close>

definition process_player :: "env \<Rightarrow> string \<Rightarrow> row list \<Rightarrow> world \<Rightarrow> (exn + row list) \<times> world" where
  "process_player e name rows w =
     (let w0 = w\<lparr>printed := printed w @ [Fetching name]\<rparr> in
      case fetch_player_stats e name 5 3 w0 of
        (Inl (ValueError msg), w1) \<Rightarrow>
          if sublist ''not on hiscores'' msg then
            (Inr rows,
             append_dropped_player (DROPPED_PLAYERS_PATH e) name
               (w1\<lparr>printed := printed w1 @ [InfoDropped name]\<rparr>))
          else (Inr rows, w1\<lparr>printed := printed w1 @ [ErrorSkip name (ValueError msg)]\<rparr>)
      | (Inl x, w1) \<Rightarrow> (Inr rows, w1\<lparr>printed := printed w1 @ [ErrorSkip name x]\<rparr>)
      | (Inr st, w1) \<Rightarrow>
          (case build_row e name st of
             Inl x \<Rightarrow> (Inl x, w1)
           | Inr row \<Rightarrow> (Inr (rows @ [row]), w1)))"

fun build_loop :: "env \<Rightarrow> string list \<Rightarrow> row list \<Rightarrow> world \<Rightarrow> (exn + row list) \<times> world" where
  "build_loop e [] rows w = (Inr rows, w)"
| "build_loop e (name # rest) rows w =
     (case process_player e name rows w of
        (Inl x, w') \<Rightarrow> (Inl x, w')
      | (Inr rows', w') \<Rightarrow> build_loop e rest rows' w')"

definition build_database :: "env \<Rightarrow> string list \<Rightarrow> world \<Rightarrow> (exn + row list) \<times> world" where
  "build_database e player_names w = build_loop e player_names [] w"

subsection \<open>An environment for concrete runs\<close>

text \<open>\<open>scripted get\<close> is an environment with the requests answered by \<open>get\<close>;
  \<^verbatim>\<open>build_database\<close> never calls \<open>read_csv\<close>, which is given a table without
  columns.\<close>

definition scripted :: "(nat \<Rightarrow> string \<Rightarrow> outcome) \<Rightarrow> env" where
  "scripted get =
     \<lparr>http_get = get, read_csv = (\<lambda>records. Inr Map.empty),
      today = ''2026-01-01'', DATA_DIR = ''data''\<rparr>"

definition fresh :: world where
  "fresh = \<lparr>requests = 0, slept = [], printed = [], files = Map.empty\<rparr>"

subsection \<open>Payloads named in the statements\<close>

text \<open>
  A skill row the skill loop accepts: exactly three fields, each of which \<^verbatim>\<open>int\<close>
  converts. A skill block is well formed when the payload has a row for every skill
  and the loop accepts each of them.
\<close>

definition skill_row_ok :: "string list \<Rightarrow> bool" where
  "skill_row_ok row \<longleftrightarrow>
     length row = 3 \<and> py_int (row ! 0) \<noteq> None \<and> py_int (row ! 1) \<noteq> None \<and> py_int (row ! 2) \<noteq> None"

definition well_formed_skill_block :: "string list list \<Rightarrow> bool" where
  "well_formed_skill_block rows \<longleftrightarrow>
     length SKILLS \<le> length rows \<and> (\<forall>row \<in> set (take (length SKILLS) rows). skill_row_ok row)"

text \<open>
  The rows of a payload as the specification describes them: the text is split into
  lines and every line at its commas. This is how the claims count skill rows and
  activity rows; \<open>payload_rows\<close> is what the code computes.
\<close>

definition spec_rows :: "string \<Rightarrow> string list list" where
  "spec_rows text =
     map (\<lambda>line. if line = [] then [] else split_at CHR '','' line [])
       (split_at CHR 0x0A (py_strip text) [])"

text \<open>A plain payload: no line holds a carriage return or a quote character, and no
  field is longer than the reader's limit. On these \<^verbatim>\<open>csv.reader\<close> does what
  the specification describes (lemma \<open>payload_rows_plain\<close>).\<close>

definition plain_line :: "string \<Rightarrow> bool" where
  "plain_line line \<longleftrightarrow>
     CHR 0x0D \<notin> set line \<and> CHR 0x22 \<notin> set line \<and>
     (\<forall>f \<in> set (split_at CHR '','' line []). int (length f) \<le> 131072)"

definition plain_payload :: "string \<Rightarrow> bool" where
  "plain_payload text \<longleftrightarrow> (\<forall>line \<in> set (split_at CHR 0x0A (py_strip text) []). plain_line line)"

text \<open>A payload of \<open>n\<close> lines \<^verbatim>\<open>1,1,1\<close>, and one of \<open>n\<close> lines \<^verbatim>\<open>-1,-1\<close>.\<close>

definition skill_lines :: "nat \<Rightarrow> string" where
  "skill_lines n = concat (replicate n (''1,1,1'' @ [CHR 0x0A]))"

definition unranked_lines :: "nat \<Rightarrow> string" where
  "unranked_lines n = concat (replicate n (''-1,-1'' @ [CHR 0x0A]))"

text \<open>The candidates for which the loop of \<^verbatim>\<open>build_database\<close> printed its first
  line, in order: the players it attempted.\<close>

fun fetching_names :: "event list \<Rightarrow> string list" where
  "fetching_names [] = []"
| "fetching_names (Fetching n # evs) = n # fetching_names evs"
| "fetching_names (ev # evs) = fetching_names evs"

section \<open>Properties\<close>

subsection \<open>Boss rows\<close>

lemma decode_boss_row_fields:
  "2 \<le> length row \<Longrightarrow>
     b_rank (decode_boss_row row) =
       (case py_int (row ! 0) of None \<Rightarrow> None | Some r \<Rightarrow> if r < 0 then None else Some r) \<and>
     b_kc (decode_boss_row row) =
       (case py_int (row ! 1) of None \<Rightarrow> None | Some k \<Rightarrow> if k < 0 then Some 0 else Some k)"
  by (simp add: decode_boss_row_def Let_def)

text \<open>
  Claim C6. For a boss row with at least two fields: a rank that parses to a negative
  number is decoded as \<open>None\<close>; a kill count that parses to a negative number is
  decoded as 0; the decoded kill count is never negative; a field that does not parse
  is decoded as \<open>None\<close>; a rank or kill count that parses to a number that is not
  negative is kept as it is, whatever the other field holds; and each decoded field
  depends on its own raw field only, so a sibling that fails to parse does not change
  it.
\<close>

theorem boss_row_sentinels:
  assumes "2 \<le> length row"
  shows "(\<forall>r. py_int (row ! 0) = Some r \<and> r < 0 \<longrightarrow> b_rank (decode_boss_row row) = None) \<and>
         (\<forall>k. py_int (row ! 1) = Some k \<and> k < 0 \<longrightarrow> b_kc (decode_boss_row row) = Some 0) \<and>
         (\<forall>k. b_kc (decode_boss_row row) = Some k \<longrightarrow> 0 \<le> k) \<and>
         (py_int (row ! 0) = None \<longrightarrow> b_rank (decode_boss_row row) = None) \<and>
         (py_int (row ! 1) = None \<longrightarrow> b_kc (decode_boss_row row) = None) \<and>
         (\<forall>r. py_int (row ! 0) = Some r \<and> 0 \<le> r \<longrightarrow> b_rank (decode_boss_row row) = Some r) \<and>
         (\<forall>k. py_int (row ! 1) = Some k \<and> 0 \<le> k \<longrightarrow> b_kc (decode_boss_row row) = Some k) \<and>
         (\<forall>f. b_kc (decode_boss_row (row[0 := f])) = b_kc (decode_boss_row row)) \<and>
         (\<forall>f. b_rank (decode_boss_row (row[1 := f])) = b_rank (decode_boss_row row))"
proof -
  have upd: "\<And>f. 2 \<le> length (row[0 := f])" "\<And>f. 2 \<le> length (row[1 := f])"
    using assms by simp_all
  have nth: "\<And>f. row[0 := f] ! 1 = row ! 1" "\<And>f. row[1 := f] ! 0 = row ! 0"
    by simp_all
  show ?thesis
    using decode_boss_row_fields[OF assms] decode_boss_row_fields[OF upd(1)]
      decode_boss_row_fields[OF upd(2)]
    by (auto simp: nth split: option.splits if_splits)
qed

theorem boss_row_sentinels_witness:
  "py_int ''x'' = None \<and> py_int ''-5'' = Some (- 5) \<and> py_int ''7'' = Some 7 \<and>
   py_int ''12'' = Some 12 \<and> py_int [CHR 0x1C, CHR ''5''] = None \<and>
   decode_boss_row [''x'', ''-5''] = \<lparr>b_rank = None, b_kc = Some 0\<rparr> \<and>
   decode_boss_row [''x'', ''7'', ''9''] = \<lparr>b_rank = None, b_kc = Some 7\<rparr> \<and>
   decode_boss_row [''12'', [CHR 0x1C, CHR ''5'']] = \<lparr>b_rank = Some 12, b_kc = None\<rparr> \<and>
   decode_boss_row [''-1'', ''7''] = \<lparr>b_rank = None, b_kc = Some 7\<rparr>"
proof -
  have p: "py_int ''x'' = None" "py_int ''-5'' = Some (- 5)" "py_int ''7'' = Some 7"
      "py_int ''12'' = Some 12" "py_int [CHR 0x1C, CHR ''5''] = None" "py_int ''-1'' = Some (- 1)"
    by code_simp+
  have eq: "\<And>x r k. b_rank x = r \<Longrightarrow> b_kc x = k \<Longrightarrow> x = \<lparr>b_rank = r, b_kc = k\<rparr>"
    by auto
  have 1: "decode_boss_row [''x'', ''-5''] = \<lparr>b_rank = None, b_kc = Some 0\<rparr>"
    using boss_row_sentinels[of "[''x'', ''-5'']"] p by (intro eq) simp_all
  have 2: "decode_boss_row [''x'', ''7'', ''9''] = \<lparr>b_rank = None, b_kc = Some 7\<rparr>"
    using boss_row_sentinels[of "[''x'', ''7'', ''9'']"] p by (intro eq) simp_all
  have 3: "decode_boss_row [''12'', [CHR 0x1C, CHR ''5'']] = \<lparr>b_rank = Some 12, b_kc = None\<rparr>"
    using boss_row_sentinels[of "[''12'', [CHR 0x1C, CHR ''5'']]"] p by (intro eq) simp_all
  have 4: "decode_boss_row [''-1'', ''7''] = \<lparr>b_rank = None, b_kc = Some 7\<rparr>"
    using boss_row_sentinels[of "[''-1'', ''7'']"] p by (intro eq) simp_all
  from p(1-5) 1 2 3 4 show ?thesis by simp
qed

subsection \<open>Writing the dropped-player store\<close>

lemma append_dropped_player_writes:
  "files (append_dropped_player path name v) path =
     Some (case files v path of None \<Rightarrow> [''player_name'', name] | Some records \<Rightarrow> records @ [name])"
  by (simp add: append_dropped_player_def split: option.splits)

lemma append_dropped_player_changes: "files (append_dropped_player path name v) \<noteq> files v"
proof
  assume "files (append_dropped_player path name v) = files v"
  then have "files (append_dropped_player path name v) path = files v path" by simp
  then show False
    by (simp add: append_dropped_player_writes split: option.splits)
qed

subsection \<open>The retry loop\<close>

lemma retry_loop_succeeds:
  assumes "0 \<le> base_delay" "0 \<le> a" "a + int j \<le> max_retries"
    and "\<forall>i<j. \<exists>f. try_request (http_get e (requests w + i) (HISCORES_URL (quote_plus name))) name
                    = Inl (Inr f)"
    and "try_request (http_get e (requests w + j) (HISCORES_URL (quote_plus name))) name = Inr text"
  shows "\<exists>w'. retry_loop e name max_retries base_delay a lst w = (Inr text, w') \<and>
              requests w' = requests w + j + 1 \<and>
              slept w' = slept w @ map (\<lambda>i. base_delay * (a + int i)) [0..<j] \<and>
              files w' = files w"
  using assms
proof (induction j arbitrary: a lst w)
  case 0
  then show ?case
    by (subst retry_loop.simps) (simp add: Let_def)
next
  case (Suc j)
  let ?url = "HISCORES_URL (quote_plus name)"
  from Suc.prems(4) obtain f where f: "try_request (http_get e (requests w) ?url) name = Inl (Inr f)"
    by force
  define w2 where "w2 = w\<lparr>requests := requests w + 1,
      printed := printed w @ [Warn name a max_retries f (base_delay * a)],
      slept := slept w @ [base_delay * a]\<rparr>"
  have step: "retry_loop e name max_retries base_delay a lst w =
        retry_loop e name max_retries base_delay (a + 1) (Some (RequestException f)) w2"
    using Suc.prems(1,2,3) f mult_nonneg_nonneg[OF Suc.prems(1,2)]
    by (subst retry_loop.simps) (simp add: Let_def w2_def not_less[symmetric])
  have rq: "requests w2 = requests w + 1" by (simp add: w2_def)
  have "\<exists>w'. retry_loop e name max_retries base_delay (a + 1) (Some (RequestException f)) w2 = (Inr text, w') \<and>
              requests w' = requests w2 + j + 1 \<and>
              slept w' = slept w2 @ map (\<lambda>i. base_delay * ((a + 1) + int i)) [0..<j] \<and>
              files w' = files w2"
  proof (rule Suc.IH)
    show "0 \<le> base_delay" by fact
    show "0 \<le> a + 1" using Suc.prems(2) by simp
    show "a + 1 + int j \<le> max_retries" using Suc.prems(3) by simp
    show "\<forall>i<j. \<exists>f. try_request (http_get e (requests w2 + i) ?url) name = Inl (Inr f)"
      using Suc.prems(4) by (simp add: rq) (metis Suc_less_eq add_Suc_right)
    show "try_request (http_get e (requests w2 + j) ?url) name = Inr text"
      using Suc.prems(5) by (simp add: rq)
  qed
  then obtain w' where w': "retry_loop e name max_retries base_delay (a + 1) (Some (RequestException f)) w2 = (Inr text, w')"
      "requests w' = requests w2 + j + 1"
      "slept w' = slept w2 @ map (\<lambda>i. base_delay * ((a + 1) + int i)) [0..<j]"
      "files w' = files w2"
    by blast
  have m: "map (\<lambda>i. base_delay * (a + int i)) [0..<Suc j] =
           (base_delay * a) # map (\<lambda>i. base_delay * ((a + 1) + int i)) [0..<j]"
    by (simp add: upt_conv_Cons map_Suc_upt[symmetric] add.assoc del: upt_Suc)
  show ?case
    unfolding m using step w' by (simp add: rq w2_def del: upt_Suc)
qed

lemma retry_loop_exhausted:
  assumes "0 \<le> base_delay" "0 \<le> a" "a + int j = max_retries"
    and "\<forall>i\<le>j. try_request (http_get e (requests w + i) (HISCORES_URL (quote_plus name))) name
                    = Inl (Inr (errs (requests w + i)))"
  shows "\<exists>w'. retry_loop e name max_retries base_delay a lst w
                 = (Inl (RequestException (errs (requests w + j))), w') \<and>
              requests w' = requests w + j + 1 \<and>
              slept w' = slept w @ map (\<lambda>i. base_delay * (a + int i)) [0..<j] \<and>
              files w' = files w"
  using assms
proof (induction j arbitrary: a lst w)
  case 0
  then show ?case
    by (subst retry_loop.simps) (simp add: Let_def)
next
  case (Suc j)
  let ?url = "HISCORES_URL (quote_plus name)"
  let ?f = "errs (requests w)"
  from Suc.prems(4) have f: "try_request (http_get e (requests w) ?url) name = Inl (Inr ?f)"
    by force
  define w2 where "w2 = w\<lparr>requests := requests w + 1,
      printed := printed w @ [Warn name a max_retries ?f (base_delay * a)],
      slept := slept w @ [base_delay * a]\<rparr>"
  have step: "retry_loop e name max_retries base_delay a lst w =
        retry_loop e name max_retries base_delay (a + 1) (Some (RequestException ?f)) w2"
    using Suc.prems(1,2,3) f mult_nonneg_nonneg[OF Suc.prems(1,2)]
    by (subst retry_loop.simps) (simp add: Let_def w2_def not_less[symmetric])
  have rq: "requests w2 = requests w + 1" by (simp add: w2_def)
  have "\<exists>w'. retry_loop e name max_retries base_delay (a + 1) (Some (RequestException ?f)) w2
                 = (Inl (RequestException (errs (requests w2 + j))), w') \<and>
              requests w' = requests w2 + j + 1 \<and>
              slept w' = slept w2 @ map (\<lambda>i. base_delay * ((a + 1) + int i)) [0..<j] \<and>
              files w' = files w2"
  proof (rule Suc.IH)
    show "0 \<le> base_delay" by fact
    show "0 \<le> a + 1" using Suc.prems(2) by simp
    show "a + 1 + int j = max_retries" using Suc.prems(3) by simp
    show "\<forall>i\<le>j. try_request (http_get e (requests w2 + i) ?url) name = Inl (Inr (errs (requests w2 + i)))"
      using Suc.prems(4) by (simp add: rq) (metis Suc_le_mono add_Suc_right)
  qed
  then obtain w' where w': "retry_loop e name max_retries base_delay (a + 1) (Some (RequestException ?f)) w2
                 = (Inl (RequestException (errs (requests w2 + j))), w')"
      "requests w' = requests w2 + j + 1"
      "slept w' = slept w2 @ map (\<lambda>i. base_delay * ((a + 1) + int i)) [0..<j]"
      "files w' = files w2"
    by blast
  have m: "map (\<lambda>i. base_delay * (a + int i)) [0..<Suc j] =
           (base_delay * a) # map (\<lambda>i. base_delay * ((a + 1) + int i)) [0..<j]"
    by (simp add: upt_conv_Cons map_Suc_upt[symmetric] add.assoc del: upt_Suc)
  show ?case
    unfolding m using step w' by (simp add: rq w2_def del: upt_Suc)
qed


lemma delays_from_one:
  "1 \<le> k \<Longrightarrow> map (\<lambda>i. (b::int) * (1 + int i)) [0..<k - 1] = map (\<lambda>i. b * int i) [1..<k]"
proof -
  assume k: "1 \<le> k"
  have "map (\<lambda>i. b * int i) (map Suc [0..<k - 1]) = map (\<lambda>i. b * int i) [1..<k]"
    using k by (simp only: map_Suc_upt) simp
  then show ?thesis by (simp add: comp_def add.commute)
qed

lemma sublist_not_on_hiscores: "sublist ''not on hiscores'' (not_on_hiscores name)"
proof -
  have "not_on_hiscores name =
          (''Player '' @ [CHR 0x27] @ name @ [CHR 0x27] @ '' '') @ ''not on hiscores'' @ ''.''"
    by (simp add: not_on_hiscores_def)
  then show ?thesis by (simp only: sublist_appendI)
qed

text \<open>
  Claim C1. When the first \<open>k - 1\<close> attempts end in a \<^verbatim>\<open>RequestException\<close> and
  attempt \<open>k \<le> max_retries\<close> succeeds with the body \<open>text\<close>, the retry loop leaves
  with \<open>text\<close> (which \<^verbatim>\<open>fetch_player_stats\<close> then decodes), after exactly \<open>k\<close>
  requests, and the sleeps added are \<open>base_delay * 1, \<dots>, base_delay * (k - 1)\<close> in
  that order: linear backoff, no sleep after the successful attempt. The delay is a
  duration: \<open>base_delay\<close> is not negative.
\<close>

theorem linear_backoff_until_success:
  assumes "1 \<le> k" "int k \<le> max_retries" "0 \<le> base_delay"
    and "\<forall>i<k - 1. \<exists>f. try_request (http_get e (requests w + i) (HISCORES_URL (quote_plus name))) name
                        = Inl (Inr f)"
    and "try_request (http_get e (requests w + (k - 1)) (HISCORES_URL (quote_plus name))) name
           = Inr text"
  shows "\<exists>w'. retry_loop e name max_retries base_delay 1 None w = (Inr text, w') \<and>
              fetch_player_stats e name max_retries base_delay w = (parse_stats text, w') \<and>
              requests w' = requests w + k \<and>
              slept w' = slept w @ map (\<lambda>i. base_delay * int i) [1..<k] \<and>
              files w' = files w"
proof -
  have b: "1 + int (k - 1) \<le> max_retries" using assms(1,2) by simp
  from retry_loop_succeeds[OF assms(3) _ b assms(4,5), of None]
  obtain w' where w': "retry_loop e name max_retries base_delay 1 None w = (Inr text, w')"
      "requests w' = requests w + (k - 1) + 1"
      "slept w' = slept w @ map (\<lambda>i. base_delay * (1 + int i)) [0..<k - 1]"
      "files w' = files w"
    by auto
  have "fetch_player_stats e name max_retries base_delay w = (parse_stats text, w')"
    by (simp add: fetch_player_stats_def w'(1))
  moreover have "requests w' = requests w + k" using w'(2) assms(1) by simp
  moreover have "slept w' = slept w @ map (\<lambda>i. base_delay * int i) [1..<k]"
    using w'(3) delays_from_one[OF assms(1)] by simp
  ultimately show ?thesis using w'(1,4) by blast
qed

theorem linear_backoff_until_success_witness:
  "slept (snd (fetch_player_stats
       (scripted (\<lambda>n url. if n < 2 then Raise ''timed out'' else Response 200 ''1,1,1''))
       ''Zezima'' 5 3 fresh)) = [3, 6] \<and>
   requests (snd (fetch_player_stats
       (scripted (\<lambda>n url. if n < 2 then Raise ''timed out'' else Response 200 ''1,1,1''))
       ''Zezima'' 5 3 fresh)) = 3 \<and>
   fst (retry_loop
       (scripted (\<lambda>n url. if n < 2 then Raise ''timed out'' else Response 200 ''1,1,1''))
       ''Zezima'' 5 3 1 None fresh) = Inr ''1,1,1''"
proof -
  let ?e = "scripted (\<lambda>n url. if n < 2 then Raise ''timed out'' else Response 200 ''1,1,1'')"
  have a: "(1::nat) \<le> 3" "int 3 \<le> 5" "(0::int) \<le> 3" by simp_all
  have b: "\<forall>i<3 - 1. \<exists>f. try_request (http_get ?e (requests fresh + i)
             (HISCORES_URL (quote_plus ''Zezima''))) ''Zezima'' = Inl (Inr f)"
    by (simp add: scripted_def fresh_def try_request_def)
  have c: "try_request (http_get ?e (requests fresh + (3 - 1))
             (HISCORES_URL (quote_plus ''Zezima''))) ''Zezima'' = Inr ''1,1,1''"
    by (simp add: scripted_def fresh_def try_request_def)
  have u: "[Suc 0..<3] = [1, 2::nat]" by (simp add: upt_conv_Cons)
  from linear_backoff_until_success[OF a b c]
  show ?thesis by (auto simp: fresh_def u)
qed

lemma fetch_player_stats_not_found:
  assumes "1 \<le> max_retries"
    and "http_get e (requests w) (HISCORES_URL (quote_plus name)) = Response 404 body"
  shows "fetch_player_stats e name max_retries base_delay w =
           (Inl (ValueError (not_on_hiscores name)), w\<lparr>requests := requests w + 1\<rparr>)"
proof -
  have "retry_loop e name max_retries base_delay 1 None w =
          (Inl (ValueError (not_on_hiscores name)), w\<lparr>requests := requests w + 1\<rparr>)"
    using assms by (subst retry_loop.simps) (simp add: Let_def try_request_def)
  then show ?thesis
    by (simp add: fetch_player_stats_def)
qed

text \<open>
  Claim C2. When the first request is answered with status 404,
  \<^verbatim>\<open>fetch_player_stats\<close> raises the \<^verbatim>\<open>ValueError\<close> "Player '...' not on hiscores."
  after that one request: nothing is slept, nothing is printed, no second request is
  sent. The caller can tell it from a transient failure: it is not a
  \<^verbatim>\<open>RequestException\<close>, its message holds the text the caller looks for, and
  the loop body of \<^verbatim>\<open>build_database\<close> answers it by appending the name to the
  dropped-player store, without a row and without a sleep.
\<close>

theorem not_found_is_permanent:
  assumes "1 \<le> max_retries"
    and "http_get e (requests w) (HISCORES_URL (quote_plus name)) = Response 404 body"
  shows "fetch_player_stats e name max_retries base_delay w =
           (Inl (ValueError (not_on_hiscores name)), w\<lparr>requests := requests w + 1\<rparr>) \<and>
         sublist ''not on hiscores'' (not_on_hiscores name) \<and>
         (\<forall>f. ValueError (not_on_hiscores name) \<noteq> RequestException f) \<and>
         (\<exists>w'. process_player e name rows w = (Inr rows, w') \<and>
               slept w' = slept w \<and> requests w' = requests w + 1 \<and>
               files w' (DROPPED_PLAYERS_PATH e) =
                 Some (case files w (DROPPED_PLAYERS_PATH e) of
                         None \<Rightarrow> [''player_name'', name]
                       | Some records \<Rightarrow> records @ [name]))"
proof -
  let ?w0 = "w\<lparr>printed := printed w @ [Fetching name]\<rparr>"
  let ?v = "?w0\<lparr>requests := requests ?w0 + 1, printed := printed ?w0 @ [InfoDropped name]\<rparr>"
  have "http_get e (requests ?w0) (HISCORES_URL (quote_plus name)) = Response 404 body"
    using assms(2) by simp
  from fetch_player_stats_not_found[OF _ this, of 5 3]
  have "process_player e name rows w =
          (Inr rows, append_dropped_player (DROPPED_PLAYERS_PATH e) name ?v)"
    by (simp add: process_player_def Let_def sublist_not_on_hiscores)
  moreover have "slept (append_dropped_player (DROPPED_PLAYERS_PATH e) name ?v) = slept w"
    "requests (append_dropped_player (DROPPED_PLAYERS_PATH e) name ?v) = requests w + 1"
    by (simp_all add: append_dropped_player_def split: option.splits)
  moreover have "files (append_dropped_player (DROPPED_PLAYERS_PATH e) name ?v) (DROPPED_PLAYERS_PATH e) =
                 Some (case files w (DROPPED_PLAYERS_PATH e) of
                         None \<Rightarrow> [''player_name'', name]
                       | Some records \<Rightarrow> records @ [name])"
    by (simp add: append_dropped_player_writes)
  ultimately show ?thesis
    using fetch_player_stats_not_found[OF assms, of base_delay]
    by (simp add: sublist_not_on_hiscores)
qed

theorem not_found_is_permanent_witness:
  "fetch_player_stats (scripted (\<lambda>n url. Response 404 [])) ''GhostName'' 5 3 fresh =
     (Inl (ValueError (''Player '' @ [CHR 0x27] @ ''GhostName'' @ [CHR 0x27] @ '' not on hiscores.'')),
      \<lparr>requests = 1, slept = [], printed = [], files = Map.empty\<rparr>) \<and>
   fst (process_player (scripted (\<lambda>n url. Response 404 [])) ''GhostName'' [] fresh) = Inr [] \<and>
   files (snd (process_player (scripted (\<lambda>n url. Response 404 [])) ''GhostName'' [] fresh))
     ''data/dropped_players.csv'' = Some [''player_name'', ''GhostName'']"
proof -
  let ?e = "scripted (\<lambda>n url. Response 404 [])"
  have a: "(1::int) \<le> 5" by simp
  have b: "http_get ?e (requests fresh) (HISCORES_URL (quote_plus ''GhostName'')) = Response 404 []"
    by (simp add: scripted_def)
  have path: "DROPPED_PLAYERS_PATH ?e = ''data/dropped_players.csv''"
    by (simp add: DROPPED_PLAYERS_PATH_def scripted_def)
  have none: "files fresh ''data/dropped_players.csv'' = None" by (simp add: fresh_def)
  note t = not_found_is_permanent[OF a b, where base_delay = 3 and rows = "[]"]
  from t have 1: "fetch_player_stats ?e ''GhostName'' 5 3 fresh =
     (Inl (ValueError (''Player '' @ [CHR 0x27] @ ''GhostName'' @ [CHR 0x27] @ '' not on hiscores.'')),
      \<lparr>requests = 1, slept = [], printed = [], files = Map.empty\<rparr>)"
    by (simp add: fresh_def not_on_hiscores_def)
  from t obtain w' where w': "process_player ?e ''GhostName'' [] fresh = (Inr [], w')"
      "files w' (DROPPED_PLAYERS_PATH ?e) =
         Some (case files fresh (DROPPED_PLAYERS_PATH ?e) of
                 None \<Rightarrow> [''player_name'', ''GhostName'']
               | Some records \<Rightarrow> records @ [''GhostName''])"
    by blast
  from w'(2) have "files w' ''data/dropped_players.csv'' = Some [''player_name'', ''GhostName'']"
    by (simp only: path none option.case)
  with w'(1) 1 show ?thesis by simp
qed

lemma process_player_skips_request_exception:
  assumes "fetch_player_stats e name 5 3 (w\<lparr>printed := printed w @ [Fetching name]\<rparr>)
             = (Inl (RequestException f), w1)"
  shows "process_player e name rows w =
           (Inr rows, w1\<lparr>printed := printed w1 @ [ErrorSkip name (RequestException f)]\<rparr>)"
  using assms by (simp add: process_player_def Let_def)

text \<open>
  Claim C8. When all \<open>max_retries\<close> attempts end in a \<^verbatim>\<open>RequestException\<close>,
  \<^verbatim>\<open>fetch_player_stats\<close> raises the exception of the last attempt, after
  \<open>max_retries\<close> requests and the sleeps \<open>base_delay * 1, \<dots>, base_delay * (max_retries - 1)\<close>.
  The loop body of \<^verbatim>\<open>build_database\<close> (five attempts, base delay 3) then prints
  the error and goes on with the rows it had: no row is added and no file is written.
\<close>

theorem transient_exhaustion_surfaces:
  assumes "1 \<le> max_retries" "0 \<le> base_delay"
    and "\<forall>i<nat max_retries.
           try_request (http_get e (requests w + i) (HISCORES_URL (quote_plus name))) name
             = Inl (Inr (errs (requests w + i)))"
  shows "(\<exists>w'. fetch_player_stats e name max_retries base_delay w
                  = (Inl (RequestException (errs (requests w + nat max_retries - 1))), w') \<and>
               requests w' = requests w + nat max_retries \<and>
               slept w' = slept w @ map (\<lambda>i. base_delay * int i) [1..<nat max_retries] \<and>
               files w' = files w) \<and>
         (max_retries = 5 \<and> base_delay = 3 \<longrightarrow>
            (\<exists>w''. process_player e name rows w = (Inr rows, w'') \<and>
                   files w'' = files w \<and>
                   slept w'' = slept w @ [3, 6, 9, 12] \<and>
                   printed w'' \<noteq> [] \<and>
                   last (printed w'') = ErrorSkip name (RequestException (errs (requests w + 4)))))"
proof -
  let ?url = "HISCORES_URL (quote_plus name)"
  define j where "j = nat max_retries - 1"
  have j: "1 + int j = max_retries" "nat max_retries = j + 1"
    using assms(1) by (simp_all add: j_def)
  have general: "\<exists>w'. fetch_player_stats e name max_retries base_delay v
                  = (Inl (RequestException (errs (requests w + nat max_retries - 1))), w') \<and>
               requests w' = requests w + nat max_retries \<and>
               slept w' = slept v @ map (\<lambda>i. base_delay * int i) [1..<nat max_retries] \<and>
               files w' = files v"
    if v: "requests v = requests w" for v
  proof -
    have fails: "\<forall>i\<le>j. try_request (http_get e (requests v + i) ?url) name
                   = Inl (Inr (errs (requests v + i)))"
      using assms(3) by (simp add: j v)
    from retry_loop_exhausted[OF assms(2) _ j(1) fails, of None]
    obtain w' where w': "retry_loop e name max_retries base_delay 1 None v
                           = (Inl (RequestException (errs (requests v + j))), w')"
        "requests w' = requests v + j + 1"
        "slept w' = slept v @ map (\<lambda>i. base_delay * (1 + int i)) [0..<j]"
        "files w' = files v"
      by auto
    have k: "1 \<le> nat max_retries" using assms(1) by simp
    have "slept w' = slept v @ map (\<lambda>i. base_delay * int i) [1..<nat max_retries]"
      using w'(3) delays_from_one[OF k, of base_delay] by (simp add: j_def)
    moreover have "fetch_player_stats e name max_retries base_delay v
                  = (Inl (RequestException (errs (requests w + nat max_retries - 1))), w')"
      by (simp add: fetch_player_stats_def w'(1) v j)
    ultimately show ?thesis using w'(2,4) by (simp add: j v)
  qed
  have first: "\<exists>w'. fetch_player_stats e name max_retries base_delay w
                  = (Inl (RequestException (errs (requests w + nat max_retries - 1))), w') \<and>
               requests w' = requests w + nat max_retries \<and>
               slept w' = slept w @ map (\<lambda>i. base_delay * int i) [1..<nat max_retries] \<and>
               files w' = files w"
    using general[of w] by simp
  have second: "\<exists>w''. process_player e name rows w = (Inr rows, w'') \<and>
                   files w'' = files w \<and>
                   slept w'' = slept w @ [3, 6, 9, 12] \<and>
                   printed w'' \<noteq> [] \<and>
                   last (printed w'') = ErrorSkip name (RequestException (errs (requests w + 4)))"
    if d: "max_retries = 5" "base_delay = 3"
  proof -
    let ?v = "w\<lparr>printed := printed w @ [Fetching name]\<rparr>"
    from general[of ?v] obtain w1 where w1:
        "fetch_player_stats e name 5 3 ?v = (Inl (RequestException (errs (requests w + 4))), w1)"
        "slept w1 = slept w @ map (\<lambda>i. 3 * int i) [1..<5]"
        "files w1 = files w"
      by (auto simp: d add.commute)
    have five: "[Suc 0..<5] = [1, 2, 3, 4::nat]" by (simp add: upt_conv_Cons)
    show ?thesis
      using process_player_skips_request_exception[OF w1(1), of rows] w1(2,3)
      by (simp add: five)
  qed
  from first second show ?thesis by blast
qed

theorem transient_exhaustion_surfaces_witness:
  "fst (fetch_player_stats (scripted (\<lambda>n url. Raise ''timed out'')) ''Zezima'' 5 3 fresh)
     = Inl (RequestException (NetworkFailure ''timed out'')) \<and>
   slept (snd (fetch_player_stats (scripted (\<lambda>n url. Raise ''timed out'')) ''Zezima'' 5 3 fresh))
     = [3, 6, 9, 12] \<and>
   fst (process_player (scripted (\<lambda>n url. Raise ''timed out'')) ''Zezima'' [] fresh) = Inr [] \<and>
   files (snd (process_player (scripted (\<lambda>n url. Raise ''timed out'')) ''Zezima'' [] fresh))
     = Map.empty"
proof -
  let ?e = "scripted (\<lambda>n url. Raise ''timed out'')"
  have a: "(1::int) \<le> 5" "(0::int) \<le> 3" by simp_all
  have b: "\<forall>i<nat 5. try_request (http_get ?e (requests fresh + i)
             (HISCORES_URL (quote_plus ''Zezima''))) ''Zezima''
             = Inl (Inr ((\<lambda>n. NetworkFailure ''timed out'') (requests fresh + i)))"
    by (simp add: scripted_def try_request_def)
  have u: "[Suc 0..<5] = [1, 2, 3, 4::nat]" by (simp add: upt_conv_Cons)
  from transient_exhaustion_surfaces[OF a b, of "[]"]
  show ?thesis by (auto simp: fresh_def u)
qed

subsection \<open>\<^verbatim>\<open>csv.reader\<close> on plain payloads\<close>

text \<open>
  On a payload without carriage returns and quote characters, whose fields stay within
  the reader's limit, \<^verbatim>\<open>csv.reader\<close> raises nothing and returns the rows of the
  specification: every line split at its commas, an empty line as a row without
  fields.
\<close>

lemma split_at_first_length:
  "\<exists>f \<in> set (split_at sep cs cur). length cur \<le> length f"
proof (induction cs arbitrary: cur)
  case Nil
  then show ?case by simp
next
  case (Cons c cs)
  show ?case
  proof (cases "c = sep")
    case True
    then show ?thesis by simp
  next
    case False
    from Cons.IH[of "c # cur"] obtain f where f: "f \<in> set (split_at sep cs (c # cur))"
        "length (c # cur) \<le> length f" by blast
    from f(1) False have "f \<in> set (split_at sep (c # cs) cur)" by simp
    moreover from f(2) have "length cur \<le> length f" by simp
    ultimately show ?thesis by blast
  qed
qed

lemma split_at_no_sep:
  "sep \<notin> set cur \<Longrightarrow> \<forall>l \<in> set (split_at sep cs cur). sep \<notin> set l"
proof (induction cs arbitrary: cur)
  case Nil
  then show ?case by simp
next
  case (Cons c cs)
  show ?case
  proof (cases "c = sep")
    case True
    from Cons.IH[of "[]"] have "\<forall>l \<in> set (split_at sep cs []). sep \<notin> set l" by simp
    with True Cons.prems show ?thesis by simp
  next
    case False
    with Cons.prems have "sep \<notin> set (c # cur)" by simp
    from Cons.IH[OF this] False show ?thesis by simp
  qed
qed

lemma process_line_plain:
  assumes "cstate r = START_FIELD \<and> cfield r = [] \<or> cstate r = IN_FIELD"
    and "\<forall>c \<in> set cs. c \<noteq> CHR 0x0D \<and> c \<noteq> CHR 0x0A \<and> c \<noteq> CHR 0x22"
    and "\<forall>f \<in> set (split_at CHR '','' cs (rev (cfield r))). int (length f) \<le> 131072"
  shows "process_line cs r =
           Inr \<lparr>cstate = START_RECORD,
                cfields = cfields r @ split_at CHR '','' cs (rev (cfield r)),
                cfield = []\<rparr>"
  using assms
proof (induction cs arbitrary: r)
  case Nil
  then show ?case
    by (auto simp: parse_process_char_def start_field_def end_of_field_def parse_save_field_def)
next
  case (Cons c cs)
  from Cons.prems(2) have c: "\<not> is_newline c" "c \<noteq> CHR 0x22"
    and rest: "\<forall>c \<in> set cs. c \<noteq> CHR 0x0D \<and> c \<noteq> CHR 0x0A \<and> c \<noteq> CHR 0x22"
    by (auto simp: is_newline_def)
  show ?case
  proof (cases "c = CHR '',''")
    case True
    let ?r = "(parse_save_field r)\<lparr>cstate := START_FIELD\<rparr>"
    have step: "parse_process_char (Some c) r = Inr ?r"
      using Cons.prems(1) c True
      by (auto simp: parse_process_char_def start_field_def)
    have st: "cstate ?r = START_FIELD \<and> cfield ?r = [] \<or> cstate ?r = IN_FIELD"
      by (simp add: parse_save_field_def)
    have bound: "\<forall>f \<in> set (split_at CHR '','' cs (rev (cfield ?r))). int (length f) \<le> 131072"
      using Cons.prems(3) True by (simp add: parse_save_field_def)
    from Cons.IH[OF st rest bound] step True show ?thesis
      by (simp add: parse_save_field_def)
  next
    case False
    from split_at_first_length[of "CHR '',''" cs "c # rev (cfield r)"] Cons.prems(3) False
    have room: "\<not> int (length (cfield r)) \<ge> 131072" by force
    let ?r = "r\<lparr>cfield := cfield r @ [c], cstate := IN_FIELD\<rparr>"
    have step: "parse_process_char (Some c) r = Inr ?r"
      using Cons.prems(1) c False room
      by (auto simp: parse_process_char_def start_field_def parse_add_char_def)
    have st: "cstate ?r = START_FIELD \<and> cfield ?r = [] \<or> cstate ?r = IN_FIELD"
      by simp
    have bound: "\<forall>f \<in> set (split_at CHR '','' cs (rev (cfield ?r))). int (length f) \<le> 131072"
      using Cons.prems(3) False by simp
    from Cons.IH[OF st rest bound] step False show ?thesis
      by simp
  qed
qed

lemma process_line_plain_record:
  assumes "plain_line line" "CHR 0x0A \<notin> set line"
  shows "process_line line parse_reset =
           Inr \<lparr>cstate = START_RECORD,
                cfields = (if line = [] then [] else split_at CHR '','' line []),
                cfield = []\<rparr>"
proof (cases line)
  case Nil
  then show ?thesis by (simp add: parse_process_char_def parse_reset_def)
next
  case (Cons c cs)
  let ?r = "parse_reset\<lparr>cstate := START_FIELD\<rparr>"
  from assms Cons have c: "\<not> is_newline c"
    by (auto simp: plain_line_def is_newline_def)
  have same: "parse_process_char (Some c) parse_reset = parse_process_char (Some c) ?r"
    using c by (simp add: parse_process_char_def parse_reset_def start_field_def
                          parse_save_field_def parse_add_char_def)
  have "process_line line parse_reset = process_line line ?r"
    by (simp add: Cons same)
  moreover have "process_line line ?r =
           Inr \<lparr>cstate = START_RECORD,
                cfields = cfields ?r @ split_at CHR '','' line (rev (cfield ?r)),
                cfield = []\<rparr>"
    using assms by (intro process_line_plain) (auto simp: plain_line_def parse_reset_def)
  ultimately show ?thesis by (simp add: Cons parse_reset_def)
qed

lemma csv_records_plain:
  assumes "\<forall>line \<in> set lines. plain_line line \<and> CHR 0x0A \<notin> set line"
  shows "csv_records lines parse_reset records =
           Inr (records @ map (\<lambda>line. if line = [] then [] else split_at CHR '','' line []) lines)"
  using assms
proof (induction lines arbitrary: records)
  case Nil
  then show ?case by (simp add: parse_reset_def)
next
  case (Cons line lines)
  from Cons.prems have "plain_line line" "CHR 0x0A \<notin> set line" by simp_all
  from process_line_plain_record[OF this] Cons.IH Cons.prems
  show ?case by simp
qed

lemma payload_rows_plain:
  assumes "plain_payload text"
  shows "payload_rows text = Inr (spec_rows text)"
proof -
  have "\<forall>line \<in> set (split_at CHR 0x0A (py_strip text) []). CHR 0x0A \<notin> set line"
    using split_at_no_sep[of "CHR 0x0A" "[]" "py_strip text"] by simp
  with assms have "\<forall>line \<in> set (split_at CHR 0x0A (py_strip text) []).
                     plain_line line \<and> CHR 0x0A \<notin> set line"
    by (simp add: plain_payload_def)
  from csv_records_plain[OF this, of "[]"] show ?thesis
    by (simp add: payload_rows_def csv_reader_def spec_rows_def)
qed

subsection \<open>The decoder\<close>

lemma length_SKILLS: "length SKILLS = 25"
  by (simp add: SKILLS_def)

lemma length_BOSSES: "length BOSSES = 67"
  by (simp add: BOSSES_def)

lemma distinct_SKILLS: "distinct SKILLS"
  by code_simp


lemma skills_loop_ok:
  "\<forall>p \<in> set ps. skill_row_ok (snd p) \<Longrightarrow>
     \<exists>sk. skills_loop ps st = Inr sk \<and> dom sk = dom st \<union> fst ` set ps"
proof (induction ps arbitrary: st)
  case Nil
  then show ?case by simp
next
  case (Cons p ps)
  obtain skill row where p: "p = (skill, row)" by (cases p)
  from Cons.prems p have ok: "skill_row_ok row" by simp
  then obtain r l x where v: "py_int (row ! 0) = Some r" "py_int (row ! 1) = Some l"
      "py_int (row ! 2) = Some x" and len: "length row = 3"
    by (auto simp: skill_row_ok_def)
  let ?st = "st(skill \<mapsto> \<lparr>s_rank = r, s_level = l, s_xp = x\<rparr>)"
  have step: "skills_loop (p # ps) st = skills_loop ps ?st"
    using v len by (simp add: p Let_def)
  from Cons.prems have "\<forall>p \<in> set ps. skill_row_ok (snd p)" by simp
  from Cons.IH[OF this, of ?st]
  obtain sk where sk: "skills_loop ps ?st = Inr sk" "dom sk = dom ?st \<union> fst ` set ps"
    by blast
  have "dom sk = dom st \<union> fst ` set (p # ps)"
    by (simp only: sk(2)) (simp add: p)
  with sk(1) step show ?case by simp
qed

lemma skills_loop_bad:
  "\<exists>p \<in> set ps. \<not> skill_row_ok (snd p) \<Longrightarrow> \<exists>msg. skills_loop ps st = Inl (ValueError msg)"
proof (induction ps arbitrary: st)
  case Nil
  then show ?case by simp
next
  case (Cons p ps)
  obtain skill row where p: "p = (skill, row)" by (cases p)
  show ?case
  proof (cases "skill_row_ok row")
    case True
    then obtain r l x where v: "py_int (row ! 0) = Some r" "py_int (row ! 1) = Some l"
        "py_int (row ! 2) = Some x" and len: "length row = 3"
      by (auto simp: skill_row_ok_def)
    from Cons.prems p True have "\<exists>p \<in> set ps. \<not> skill_row_ok (snd p)" by auto
    from Cons.IH[OF this] v len show ?thesis by (simp add: p Let_def)
  next
    case False
    then show ?thesis
      by (auto simp: p skill_row_ok_def Let_def split: option.splits)
  qed
qed




lemma skill_columns_ok:
  "\<forall>s \<in> set xs. skills st s \<noteq> None \<Longrightarrow> \<exists>row'. skill_columns xs st row = Inr row'"
  by (induction xs arbitrary: row) auto

lemma skill_columns_missing:
  "\<forall>s \<in> set xs. skills st s \<noteq> None \<Longrightarrow> skills st s' = None \<Longrightarrow>
     skill_columns (xs @ s' # ys) st row = Inl (KeyError s')"
  by (induction xs arbitrary: row) auto

lemma boss_columns_keeps_none:
  "\<forall>b \<in> set bs. boss_vals st b = \<lparr>b_rank = None, b_kc = None\<rparr> \<Longrightarrow> row c = Some CNone \<Longrightarrow>
     boss_columns bs st row c = Some CNone"
  by (induction bs arbitrary: row) (auto simp: Let_def opt_cell_def)

lemma boss_columns_placeholders:
  "\<forall>b \<in> set bs. boss_vals st b = \<lparr>b_rank = None, b_kc = None\<rparr> \<Longrightarrow> b \<in> set bs \<Longrightarrow>
     boss_columns bs st row (b @ ''_kc'') = Some CNone \<and>
     boss_columns bs st row (b @ ''_rank'') = Some CNone"
proof (induction bs arbitrary: row)
  case Nil
  then show ?case by simp
next
  case (Cons a bs)
  let ?row = "row(a @ ''_kc'' \<mapsto> CNone, a @ ''_rank'' \<mapsto> CNone)"
  from Cons.prems(1) have a: "boss_vals st a = \<lparr>b_rank = None, b_kc = None\<rparr>"
    and rest: "\<forall>b \<in> set bs. boss_vals st b = \<lparr>b_rank = None, b_kc = None\<rparr>" by auto
  have step: "boss_columns (a # bs) st row = boss_columns bs st ?row"
    by (simp add: a Let_def opt_cell_def)
  show ?case
  proof (cases "b \<in> set bs")
    case True
    from Cons.IH[OF rest True] show ?thesis by (simp only: step)
  next
    case False
    with Cons.prems(2) have ba: "b = a" by simp
    have "boss_columns bs st ?row (a @ ''_kc'') = Some CNone"
      by (rule boss_columns_keeps_none[OF rest]) simp
    moreover have "boss_columns bs st ?row (a @ ''_rank'') = Some CNone"
      by (rule boss_columns_keeps_none[OF rest]) simp
    ultimately show ?thesis by (simp only: step ba)
  qed
qed

lemma zip_skill_rows_ok:
  assumes "\<forall>row \<in> set (take n rows). skill_row_ok row"
  shows "\<forall>p \<in> set (zip xs (take n rows)). skill_row_ok (snd p)"
  using assms by (auto dest: set_zip_rightD)

lemma fst_set_zip: "fst ` set (zip xs ys) = set (take (length ys) xs)"
proof -
  have "map fst (zip xs ys) = take (length ys) xs"
    by (induction xs arbitrary: ys) (auto simp: take_Cons' neq_Nil_conv split: list.splits nat.splits)
  then have "set (map fst (zip xs ys)) = set (take (length ys) xs)" by simp
  then show ?thesis by simp
qed

lemma skill_block_decodes:
  assumes "\<forall>row \<in> set (take (length SKILLS) rows). skill_row_ok row"
  shows "\<exists>sk. skills_loop (zip SKILLS (take (length SKILLS) rows)) Map.empty = Inr sk \<and>
              dom sk = set (take (length rows) SKILLS)"
proof -
  from skills_loop_ok[OF zip_skill_rows_ok[OF assms], of SKILLS Map.empty]
  obtain sk where sk: "skills_loop (zip SKILLS (take (length SKILLS) rows)) Map.empty = Inr sk"
      "dom sk = dom (Map.empty :: string \<rightharpoonup> skill_entry)
                  \<union> fst ` set (zip SKILLS (take (length SKILLS) rows))"
    by blast
  have "take (min (length rows) (length SKILLS)) SKILLS = take (length rows) SKILLS"
    by (simp add: min_def)
  with sk(2) have "dom sk = set (take (length rows) SKILLS)"
    by (simp add: fst_set_zip)
  with sk(1) show ?thesis by blast
qed

lemma skill_block_rejected:
  assumes "\<exists>row \<in> set (take (length SKILLS) rows). \<not> skill_row_ok row"
  shows "\<exists>msg. skills_loop (zip SKILLS (take (length SKILLS) rows)) Map.empty = Inl (ValueError msg)"
proof -
  from assms obtain i where i: "i < length (take (length SKILLS) rows)"
      "\<not> skill_row_ok (take (length SKILLS) rows ! i)"
    by (auto simp: in_set_conv_nth)
  then have "i < length SKILLS" by simp
  with i(1) have "(SKILLS ! i, take (length SKILLS) rows ! i) \<in> set (zip SKILLS (take (length SKILLS) rows))"
    by (auto simp: set_zip)
  with i(2) have "\<exists>p \<in> set (zip SKILLS (take (length SKILLS) rows)). \<not> skill_row_ok (snd p)"
    by force
  from skills_loop_bad[OF this] show ?thesis .
qed

lemma parse_stats_rows:
  assumes "payload_rows text = Inr rows"
  shows "parse_stats text =
           (case skills_loop (zip SKILLS (take (length SKILLS) rows)) Map.empty of
              Inl x \<Rightarrow> Inl x
            | Inr sk \<Rightarrow>
                Inr \<lparr>skills = sk,
                     bosses = bosses_loop
                       (zip BOSSES
                          (if length BOSSES \<le> length (drop (length SKILLS) rows)
                           then last_rows (length BOSSES) (drop (length SKILLS) rows) else []))
                       Map.empty\<rparr>)"
  using assms by (auto simp: parse_stats_def Let_def split: sum.splits)

lemma parse_stats_csv_error:
  "payload_rows text = Inl x \<Longrightarrow> parse_stats text = Inl x"
  by (simp add: parse_stats_def)

lemma parse_stats_malformed_skill_row:
  assumes "payload_rows text = Inr rows"
    and "\<exists>row \<in> set (take (length SKILLS) rows). \<not> skill_row_ok row"
  shows "\<exists>msg. parse_stats text = Inl (ValueError msg)"
  using skill_block_rejected[OF assms(2)] by (auto simp: parse_stats_rows[OF assms(1)])

lemma parse_stats_short_skill_block:
  assumes "payload_rows text = Inr rows"
    and "length rows < length SKILLS"
    and "\<forall>row \<in> set rows. skill_row_ok row"
  shows "\<exists>st. parse_stats text = Inr st \<and>
              dom (skills st) = set (take (length rows) SKILLS) \<and>
              bosses st = Map.empty"
proof -
  have "\<forall>row \<in> set (take (length SKILLS) rows). skill_row_ok row"
    using assms(2,3) by simp
  from skill_block_decodes[OF this] obtain sk where
    sk: "skills_loop (zip SKILLS (take (length SKILLS) rows)) Map.empty = Inr sk"
      "dom sk = set (take (length rows) SKILLS)"
    by blast
  have "parse_stats text = Inr \<lparr>skills = sk, bosses = Map.empty\<rparr>"
    using assms(2) sk(1) by (simp add: parse_stats_rows[OF assms(1)] length_BOSSES)
  with sk(2) show ?thesis by simp
qed

text \<open>
  Claim C3, as stated, at a payload of 25 lines \<^verbatim>\<open>1,1,1\<close> followed by the line
  \<^verbatim>\<open>a\rb\<close>: in the rows of the specification the skill block is well formed and
  one activity row follows it, yet \<^verbatim>\<open>csv.reader\<close> raises \<^verbatim>\<open>csv.Error\<close> on the
  carriage return inside the last line, so decoding does not succeed.
\<close>

theorem short_activity_block_csv_error:
  "well_formed_skill_block (spec_rows (skill_lines 25 @ ''a'' @ [CHR 0x0D] @ ''b'')) \<and>
   length (spec_rows (skill_lines 25 @ ''a'' @ [CHR 0x0D] @ ''b'')) = 26 \<and>
   26 - length SKILLS < length BOSSES \<and>
   parse_stats (skill_lines 25 @ ''a'' @ [CHR 0x0D] @ ''b'') =
     Inl (CsvError (''new-line character seen in unquoted field - '' @
                    ''do you need to open the file with newline='' @
                    [CHR 0x27, CHR 0x27, CHR ''?'']))"
proof -
  let ?t = "skill_lines 25 @ ''a'' @ [CHR 0x0D] @ ''b''"
  let ?m = "''new-line character seen in unquoted field - '' @
            ''do you need to open the file with newline='' @ [CHR 0x27, CHR 0x27, CHR ''?'']"
  have wf: "well_formed_skill_block (spec_rows ?t)" by code_simp
  have len: "length (spec_rows ?t) = 26" by code_simp
  have few: "26 - length SKILLS < length BOSSES"
    by (simp only: length_SKILLS length_BOSSES)
  have "payload_rows ?t = Inl (CsvError ?m)" by code_simp
  from parse_stats_csv_error[OF this] wf len few show ?thesis by blast
qed

text \<open>
  Claim C3, amended. When \<^verbatim>\<open>csv.reader\<close> reads the payload into rows, the skill
  block is well formed and fewer than \<open>length BOSSES\<close> rows follow it, decoding
  succeeds, the boss dictionary is consulted with the default of
  \<^verbatim>\<open>build_database\<close>, so every boss of \<open>BOSSES\<close> has the entry with rank
  \<^verbatim>\<open>None\<close> and kill count \<^verbatim>\<open>None\<close>, and the row built from the result has
  \<^verbatim>\<open>None\<close> in both columns of every boss.
\<close>

theorem short_activity_block_gives_placeholders:
  assumes "payload_rows text = Inr rows"
    and "well_formed_skill_block rows"
    and "length rows - length SKILLS < length BOSSES"
  shows "\<exists>st. parse_stats text = Inr st \<and>
              (\<forall>boss \<in> set BOSSES. boss_vals st boss = \<lparr>b_rank = None, b_kc = None\<rparr>) \<and>
              (\<exists>row. build_row e name st = Inr row \<and>
                 (\<forall>boss \<in> set BOSSES. row (boss @ ''_kc'') = Some CNone \<and>
                                       row (boss @ ''_rank'') = Some CNone))"
proof -
  from assms(2) have len: "length SKILLS \<le> length rows"
    and ok: "\<forall>row \<in> set (take (length SKILLS) rows). skill_row_ok row"
    by (simp_all add: well_formed_skill_block_def)
  from skill_block_decodes[OF ok] obtain sk where
    sk: "skills_loop (zip SKILLS (take (length SKILLS) rows)) Map.empty = Inr sk"
      "dom sk = set (take (length rows) SKILLS)"
    by blast
  let ?st = "\<lparr>skills = sk, bosses = Map.empty\<rparr>"
  have parse: "parse_stats text = Inr ?st"
    using assms(3) by (simp add: parse_stats_rows[OF assms(1)] sk(1))
  have vals: "\<forall>boss \<in> set BOSSES. boss_vals ?st boss = \<lparr>b_rank = None, b_kc = None\<rparr>"
    by (simp add: boss_vals_def)
  have "dom sk = set SKILLS" using sk(2) len by simp
  then have "\<forall>s \<in> set SKILLS. skills ?st s \<noteq> None" by auto
  from skill_columns_ok[OF this]
  obtain row' where row': "skill_columns SKILLS ?st
       [''player_name'' \<mapsto> CStr name, ''date'' \<mapsto> CStr (today e)] = Inr row'"
    by blast
  have build: "build_row e name ?st = Inr (boss_columns BOSSES ?st row')"
    by (simp add: build_row_def Let_def row')
  have "\<forall>boss \<in> set BOSSES. boss_columns BOSSES ?st row' (boss @ ''_kc'') = Some CNone \<and>
                             boss_columns BOSSES ?st row' (boss @ ''_rank'') = Some CNone"
    using boss_columns_placeholders[OF vals] by blast
  with parse vals build show ?thesis by blast
qed

theorem short_activity_block_gives_placeholders_witness:
  "payload_rows (skill_lines 25 @ unranked_lines 3) = Inr (spec_rows (skill_lines 25 @ unranked_lines 3)) \<and>
   well_formed_skill_block (spec_rows (skill_lines 25 @ unranked_lines 3)) \<and>
   length (spec_rows (skill_lines 25 @ unranked_lines 3)) = 28 \<and>
   (\<exists>st. parse_stats (skill_lines 25 @ unranked_lines 3) = Inr st \<and>
         boss_vals st ''vorkath'' = \<lparr>b_rank = None, b_kc = None\<rparr> \<and>
         (\<exists>row. build_row (scripted (\<lambda>n url. Raise [])) ''Zezima'' st = Inr row \<and>
                row ''vorkath_kc'' = Some CNone \<and> row ''vorkath_rank'' = Some CNone))"
proof -
  let ?e = "scripted (\<lambda>n url. Raise [])"
  let ?t = "skill_lines 25 @ unranked_lines 3"
  have rd: "payload_rows ?t = Inr (spec_rows ?t)" by code_simp
  have wf: "well_formed_skill_block (spec_rows ?t)" by code_simp
  have len: "length (spec_rows ?t) = 28" by code_simp
  have few: "length (spec_rows ?t) - length SKILLS < length BOSSES"
    by (simp only: len length_SKILLS length_BOSSES)
  have v: "''vorkath'' \<in> set BOSSES" by code_simp
  from short_activity_block_gives_placeholders[OF rd wf few, of ?e "''Zezima''"]
  obtain st row where "parse_stats ?t = Inr st"
      "\<forall>boss \<in> set BOSSES. boss_vals st boss = \<lparr>b_rank = None, b_kc = None\<rparr>"
      "build_row ?e ''Zezima'' st = Inr row"
      "\<forall>boss \<in> set BOSSES. row (boss @ ''_kc'') = Some CNone \<and> row (boss @ ''_rank'') = Some CNone"
    by auto
  with v have "parse_stats ?t = Inr st \<and>
         boss_vals st ''vorkath'' = \<lparr>b_rank = None, b_kc = None\<rparr> \<and>
         (\<exists>row. build_row ?e ''Zezima'' st = Inr row \<and>
                row ''vorkath_kc'' = Some CNone \<and> row ''vorkath_rank'' = Some CNone)"
    by force
  with rd wf len show ?thesis by blast
qed



subsection \<open>Short skill blocks\<close>

text \<open>
  Claim C4, at a payload of 24 well-formed skill rows (one fewer than \<open>SKILLS\<close>):
  \<^verbatim>\<open>zip(SKILLS, skill_rows)\<close> stops at the shorter list, so
  \<^verbatim>\<open>fetch_player_stats\<close> raises nothing and returns statistics without an entry
  for \<^verbatim>\<open>sailing\<close>.
\<close>

theorem short_skill_block_raises_nothing:
  "\<exists>st w'. fetch_player_stats (scripted (\<lambda>n url. Response 200 (skill_lines 24))) ''Zezima'' 5 3 fresh
              = (Inr st, w') \<and>
           skills st ''sailing'' = None \<and>
           skills st ''construction'' = Some \<lparr>s_rank = 1, s_level = 1, s_xp = 1\<rparr> \<and>
           requests w' = 1"
proof -
  have "case fetch_player_stats (scripted (\<lambda>n url. Response 200 (skill_lines 24))) ''Zezima'' 5 3 fresh of
          (Inl x, w') \<Rightarrow> False
        | (Inr st, w') \<Rightarrow> skills st ''sailing'' = None \<and>
              skills st ''construction'' = Some \<lparr>s_rank = 1, s_level = 1, s_xp = 1\<rparr> \<and>
              requests w' = 1"
    by code_simp
  then show ?thesis by (auto split: prod.splits sum.splits)
qed

text \<open>
  Claim C5, at the candidates \<^verbatim>\<open>["A", "B"]\<close> when the payload of \<^verbatim>\<open>A\<close> has 24
  well-formed skill rows: \<^verbatim>\<open>stats[skill]\<close> raises \<^verbatim>\<open>KeyError('sailing')\<close>
  outside the \<^verbatim>\<open>try\<close>, \<^verbatim>\<open>build_database\<close> ends with that exception, and
  \<^verbatim>\<open>B\<close> is never fetched (one request, one "Fetching" line).
\<close>

theorem build_database_aborts_on_short_skill_block:
  "\<exists>w'. build_database (scripted (\<lambda>n url. Response 200 (skill_lines 24))) [''A'', ''B''] fresh
           = (Inl (KeyError ''sailing''), w') \<and>
        printed w' = [Fetching ''A''] \<and> requests w' = 1"
proof -
  have "case build_database (scripted (\<lambda>n url. Response 200 (skill_lines 24))) [''A'', ''B''] fresh of
          (Inl x, w') \<Rightarrow> x = KeyError ''sailing'' \<and> printed w' = [Fetching ''A''] \<and> requests w' = 1
        | (Inr rows, w') \<Rightarrow> False"
    by code_simp
  then show ?thesis by (auto split: prod.splits sum.splits)
qed

subsection \<open>The dropped-player store and the loop body\<close>

text \<open>
  Claim C9, as stated, at a store that exists and holds nothing (a zero-byte file): it
  has no column \<^verbatim>\<open>player_name\<close>, and \<^verbatim>\<open>load_dropped_players\<close> raises the
  \<^verbatim>\<open>EmptyDataError\<close> of \<^verbatim>\<open>pandas.read_csv\<close> instead of returning the empty
  set.
\<close>

theorem load_dropped_players_raises_on_empty_file:
  "files (fresh\<lparr>files := [''data/dropped_players.csv'' \<mapsto> []]\<rparr>) ''data/dropped_players.csv''
     = Some [] \<and>
   load_dropped_players (scripted (\<lambda>n url. Raise [])) ''data/dropped_players.csv''
     (fresh\<lparr>files := [''data/dropped_players.csv'' \<mapsto> []]\<rparr>)
     = Inl (EmptyDataError ''No columns to parse from file'')"
  by (simp add: load_dropped_players_def pd_read_csv_def)

text \<open>
  Claim C9, amended. \<^verbatim>\<open>load_dropped_players\<close> returns the empty set, and raises
  nothing, when the file does not exist, and also when the file exists and
  \<^verbatim>\<open>pandas.read_csv\<close> reads it as a table without a column \<^verbatim>\<open>player_name\<close>.
  It raises exactly when the file exists and \<^verbatim>\<open>pandas.read_csv\<close> raises on it,
  with that exception; a file without data is such a file.
\<close>

theorem load_dropped_players_empty_cases:
  "(files w path = None \<longrightarrow> load_dropped_players e path w = Inr {}) \<and>
   (\<forall>records df. files w path = Some records \<and> pd_read_csv e records = Inr df \<and>
                  df ''player_name'' = None \<longrightarrow>
        load_dropped_players e path w = Inr {}) \<and>
   (\<forall>x. load_dropped_players e path w = Inl x \<longleftrightarrow>
        (\<exists>records. files w path = Some records \<and> pd_read_csv e records = Inl x)) \<and>
   (files w path = Some [] \<longrightarrow>
        load_dropped_players e path w = Inl (EmptyDataError ''No columns to parse from file''))"
proof -
  have absent: "files w path = None \<longrightarrow> load_dropped_players e path w = Inr {}"
    by (simp add: load_dropped_players_def)
  have no_column: "load_dropped_players e path w = Inr {}"
    if "files w path = Some records" "pd_read_csv e records = Inr df" "df ''player_name'' = None"
    for records df
    using that by (simp add: load_dropped_players_def)
  have raises: "load_dropped_players e path w = Inl x \<longleftrightarrow>
        (\<exists>records. files w path = Some records \<and> pd_read_csv e records = Inl x)" for x
  proof (cases "files w path")
    case None
    then show ?thesis by (simp add: load_dropped_players_def)
  next
    case (Some records)
    then show ?thesis
      by (cases "pd_read_csv e records")
         (auto simp: load_dropped_players_def split: option.splits)
  qed
  have no_data: "files w path = Some [] \<longrightarrow>
        load_dropped_players e path w = Inl (EmptyDataError ''No columns to parse from file'')"
    by (simp add: load_dropped_players_def pd_read_csv_def)
  from absent no_column raises no_data show ?thesis by blast
qed

theorem load_dropped_players_empty_cases_witness:
  "load_dropped_players (scripted (\<lambda>n url. Raise [])) ''data/dropped_players.csv'' fresh = Inr {} \<and>
   load_dropped_players
     ((scripted (\<lambda>n url. Raise []))\<lparr>read_csv := \<lambda>records. Inr [hd records \<mapsto> tl records]\<rparr>)
     ''data/dropped_players.csv''
     (fresh\<lparr>files := [''data/dropped_players.csv'' \<mapsto> [''name'', ''Zezima'']]\<rparr>) = Inr {}"
proof -
  let ?e = "(scripted (\<lambda>n url. Raise []))\<lparr>read_csv := \<lambda>records. Inr [hd records \<mapsto> tl records]\<rparr>"
  let ?w = "fresh\<lparr>files := [''data/dropped_players.csv'' \<mapsto> [''name'', ''Zezima'']]\<rparr>"
  have a: "files fresh ''data/dropped_players.csv'' = None" by (simp add: fresh_def)
  have b: "files ?w ''data/dropped_players.csv'' = Some [''name'', ''Zezima''] \<and>
           pd_read_csv ?e [''name'', ''Zezima''] = Inr [''name'' \<mapsto> [''Zezima'']] \<and>
           [''name'' \<mapsto> [''Zezima'']] ''player_name'' = None"
    by (simp add: pd_read_csv_def)
  from load_dropped_players_empty_cases[of fresh "''data/dropped_players.csv''" "scripted (\<lambda>n url. Raise [])"] a
  have 1: "load_dropped_players (scripted (\<lambda>n url. Raise [])) ''data/dropped_players.csv'' fresh = Inr {}"
    by blast
  from load_dropped_players_empty_cases[of ?w "''data/dropped_players.csv''" ?e] b
  have 2: "load_dropped_players ?e ''data/dropped_players.csv'' ?w = Inr {}"
    by blast
  from 1 2 show ?thesis by blast
qed

text \<open>
  Claim C10. In the loop body of \<^verbatim>\<open>build_database\<close> the dropped-player store is
  written exactly when \<^verbatim>\<open>fetch_player_stats\<close> raised a \<^verbatim>\<open>ValueError\<close> whose message
  contains "not on hiscores": the name is then appended to the store (after the header,
  when the file is new) and the rows are left as they were. Any other
  \<^verbatim>\<open>ValueError\<close> is printed and skipped, rows and files unchanged. The test looks at
  the message only, so a \<^verbatim>\<open>ValueError\<close> of the decoder whose message contains the
  text is recorded as dropped too.
\<close>

theorem dropped_exactly_on_not_on_hiscores:
  assumes "fetch_player_stats e name 5 3 (w\<lparr>printed := printed w @ [Fetching name]\<rparr>) = (r, w1)"
  shows "((\<exists>msg. r = Inl (ValueError msg) \<and> sublist ''not on hiscores'' msg) \<longleftrightarrow>
            files (snd (process_player e name rows w)) \<noteq> files w1) \<and>
         (\<forall>msg. r = Inl (ValueError msg) \<and> sublist ''not on hiscores'' msg \<longrightarrow>
            process_player e name rows w =
              (Inr rows, append_dropped_player (DROPPED_PLAYERS_PATH e) name
                           (w1\<lparr>printed := printed w1 @ [InfoDropped name]\<rparr>)) \<and>
            files (snd (process_player e name rows w)) (DROPPED_PLAYERS_PATH e) =
              Some (case files w1 (DROPPED_PLAYERS_PATH e) of
                      None \<Rightarrow> [''player_name'', name]
                    | Some records \<Rightarrow> records @ [name])) \<and>
         (\<forall>msg. r = Inl (ValueError msg) \<and> \<not> sublist ''not on hiscores'' msg \<longrightarrow>
            process_player e name rows w =
              (Inr rows, w1\<lparr>printed := printed w1 @ [ErrorSkip name (ValueError msg)]\<rparr>)) \<and>
         (\<forall>text msg. parse_stats text = Inl (ValueError msg) \<and> r = parse_stats text \<and>
                     sublist ''not on hiscores'' msg \<longrightarrow>
            files (snd (process_player e name rows w)) (DROPPED_PLAYERS_PATH e) =
              Some (case files w1 (DROPPED_PLAYERS_PATH e) of
                      None \<Rightarrow> [''player_name'', name]
                    | Some records \<Rightarrow> records @ [name]))"
proof -
  let ?path = "DROPPED_PLAYERS_PATH e"
  let ?v = "w1\<lparr>printed := printed w1 @ [InfoDropped name]\<rparr>"
  have dropped: "process_player e name rows w = (Inr rows, append_dropped_player ?path name ?v)"
    if "r = Inl (ValueError msg)" "sublist ''not on hiscores'' msg" for msg
    using assms that by (simp add: process_player_def Let_def)
  have written: "files (snd (process_player e name rows w)) ?path =
              Some (case files w1 ?path of None \<Rightarrow> [''player_name'', name]
                    | Some records \<Rightarrow> records @ [name])"
    if "r = Inl (ValueError msg)" "sublist ''not on hiscores'' msg" for msg
    using dropped[OF that] append_dropped_player_writes[of ?path name ?v] by simp
  have changed: "files (snd (process_player e name rows w)) \<noteq> files w1"
    if "r = Inl (ValueError msg)" "sublist ''not on hiscores'' msg" for msg
    using dropped[OF that] append_dropped_player_changes[of ?path name ?v] by simp
  have skipped: "process_player e name rows w =
              (Inr rows, w1\<lparr>printed := printed w1 @ [ErrorSkip name (ValueError msg)]\<rparr>)"
    if "r = Inl (ValueError msg)" "\<not> sublist ''not on hiscores'' msg" for msg
    using assms that by (simp add: process_player_def Let_def)
  have unchanged: "files (snd (process_player e name rows w)) = files w1"
    if "\<not> (\<exists>msg. r = Inl (ValueError msg) \<and> sublist ''not on hiscores'' msg)"
    using assms that
    by (auto simp: process_player_def Let_def split: sum.splits exn.splits)
  show ?thesis
    using dropped written changed skipped unchanged by (intro conjI allI impI iffI) auto
qed


theorem dropped_exactly_on_not_on_hiscores_witness:
  "parse_stats ''not on hiscores,1,1''
     = Inl (ValueError (''invalid literal for int() with base 10: '' @ [CHR 0x27] @
                        ''not on hiscores'' @ [CHR 0x27])) \<and>
   fst (process_player (scripted (\<lambda>n url. Response 200 ''not on hiscores,1,1'')) ''Zezima'' [] fresh)
     = Inr [] \<and>
   files (snd (process_player (scripted (\<lambda>n url. Response 200 ''not on hiscores,1,1''))
                 ''Zezima'' [] fresh)) ''data/dropped_players.csv''
     = Some [''player_name'', ''Zezima'']"
proof -
  let ?e = "scripted (\<lambda>n url. Response 200 ''not on hiscores,1,1'')"
  let ?m = "''invalid literal for int() with base 10: '' @ [CHR 0x27] @ ''not on hiscores'' @ [CHR 0x27]"
  let ?w = "fresh\<lparr>printed := printed fresh @ [Fetching ''Zezima'']\<rparr>"
  have path: "DROPPED_PLAYERS_PATH ?e = ''data/dropped_players.csv''"
    by (simp add: DROPPED_PLAYERS_PATH_def scripted_def)
  have "case parse_stats ''not on hiscores,1,1'' of Inl x \<Rightarrow> x = ValueError ?m | Inr st \<Rightarrow> False"
    by code_simp
  then have decode: "parse_stats ''not on hiscores,1,1'' = Inl (ValueError ?m)"
    by (auto split: sum.splits)
  have sub: "sublist ''not on hiscores'' ?m" by code_simp
  have "case fetch_player_stats ?e ''Zezima'' 5 3 ?w of
          (Inl x, w1) \<Rightarrow> x = ValueError ?m \<and> files w1 ''data/dropped_players.csv'' = None
        | (Inr st, w1) \<Rightarrow> False"
    by code_simp
  then obtain w1 where f: "fetch_player_stats ?e ''Zezima'' 5 3 ?w = (Inl (ValueError ?m), w1)"
    and none: "files w1 ''data/dropped_players.csv'' = None"
    by (auto split: prod.splits sum.splits)
  note t = dropped_exactly_on_not_on_hiscores[OF f, of "[]"]
  from t sub have p: "process_player ?e ''Zezima'' [] fresh =
              (Inr [], append_dropped_player (DROPPED_PLAYERS_PATH ?e) ''Zezima''
                           (w1\<lparr>printed := printed w1 @ [InfoDropped ''Zezima'']\<rparr>))"
    by blast
  from t sub have "files (snd (process_player ?e ''Zezima'' [] fresh)) (DROPPED_PLAYERS_PATH ?e) =
              Some (case files w1 (DROPPED_PLAYERS_PATH ?e) of
                      None \<Rightarrow> [''player_name'', ''Zezima'']
                    | Some records \<Rightarrow> records @ [''Zezima''])"
    by blast
  then have "files (snd (process_player ?e ''Zezima'' [] fresh)) ''data/dropped_players.csv''
               = Some [''player_name'', ''Zezima'']"
    by (simp only: path none option.case)
  moreover from p have "fst (process_player ?e ''Zezima'' [] fresh) = Inr []" by simp
  ultimately show ?thesis using decode by blast
qed

subsection \<open>What the handlers of the loop body isolate\<close>

text \<open>
  An exception raised by \<^verbatim>\<open>fetch_player_stats\<close> never leaves the loop body, and a
  result with an entry for every skill adds a row. So the loop attempts every
  candidate as long as no decoded result lacks a skill.
\<close>

lemma fetch_player_stats_decoding_error:
  assumes "retry_loop e name max_retries base_delay 1 None w = (Inr text, w')"
    and "payload_rows text = Inr rows"
    and "\<exists>row \<in> set (take (length SKILLS) rows). \<not> skill_row_ok row"
  shows "\<exists>msg. fetch_player_stats e name max_retries base_delay w = (Inl (ValueError msg), w')"
  using parse_stats_malformed_skill_row[OF assms(2,3)] assms(1)
  by (auto simp: fetch_player_stats_def)

lemma process_player_isolates_raised:
  assumes "fetch_player_stats e name 5 3 (w\<lparr>printed := printed w @ [Fetching name]\<rparr>) = (Inl x, w1)"
  shows "\<exists>w'. process_player e name rows w = (Inr rows, w')"
  using assms by (auto simp: process_player_def Let_def split: exn.splits)

lemma process_player_adds_complete_row:
  assumes "fetch_player_stats e name 5 3 (w\<lparr>printed := printed w @ [Fetching name]\<rparr>) = (Inr st, w1)"
    and "set SKILLS \<subseteq> dom (skills st)"
  shows "\<exists>row. process_player e name rows w = (Inr (rows @ [row]), w1)"
proof -
  from assms(2) have "\<forall>s \<in> set SKILLS. skills st s \<noteq> None" by auto
  from skill_columns_ok[OF this]
  obtain row' where "skill_columns SKILLS st
       [''player_name'' \<mapsto> CStr name, ''date'' \<mapsto> CStr (today e)] = Inr row'"
    by blast
  then show ?thesis
    using assms(1) by (simp add: process_player_def build_row_def Let_def)
qed

lemma retry_loop_printed:
  "\<exists>evs. printed (snd (retry_loop e name m b a lst w)) = printed w @ evs \<and> (\<forall>n. Fetching n \<notin> set evs)"
proof (induction e name m b a lst w rule: retry_loop.induct)
  case (1 e name m b a lst w)
  let ?url = "HISCORES_URL (quote_plus name)"
  let ?w1 = "w\<lparr>requests := requests w + 1\<rparr>"
  show ?case
  proof (cases "a > m")
    case True
    then show ?thesis by (subst retry_loop.simps) simp
  next
    case False
    show ?thesis
    proof (cases "try_request (http_get e (requests w) ?url) name")
      case (Inr body)
      with False show ?thesis by (subst retry_loop.simps) (simp add: Let_def)
    next
      case (Inl x)
      show ?thesis
      proof (cases x)
        case (Inl y)
        with \<open>try_request (http_get e (requests w) ?url) name = Inl x\<close> False
        show ?thesis by (subst retry_loop.simps) (simp add: Let_def)
      next
        case (Inr f)
        note tr = \<open>try_request (http_get e (requests w) ?url) name = Inl x\<close>[unfolded Inr]
        show ?thesis
        proof (cases "a = m \<or> b * a < 0")
          case True
          with tr False show ?thesis
            by (subst retry_loop.simps) (auto simp: Let_def)
        next
          case F2: False
          let ?w2 = "?w1\<lparr>printed := printed ?w1 @ [Warn name a m f (b * a)]\<rparr>"
          let ?w3 = "?w2\<lparr>slept := slept ?w2 @ [b * a]\<rparr>"
          from F2 have ne: "a \<noteq> m" and nn: "\<not> b * a < 0" by simp_all
          from "1.IH"[OF False refl refl \<open>try_request (http_get e (requests w) ?url) name = Inl x\<close>
                 Inr ne refl refl nn]
          obtain evs where evs: "printed (snd (retry_loop e name m b (a + 1) (Some (RequestException f)) ?w3))
                = printed ?w3 @ evs" "\<forall>n. Fetching n \<notin> set evs"
            by auto
          have step: "retry_loop e name m b a lst w
                 = retry_loop e name m b (a + 1) (Some (RequestException f)) ?w3"
            using tr False F2 by (subst retry_loop.simps) (simp add: Let_def)
          have "printed (snd (retry_loop e name m b a lst w))
                  = printed w @ (Warn name a m f (b * a) # evs)"
            by (simp only: step evs(1)) simp
          moreover have "\<forall>n. Fetching n \<notin> set (Warn name a m f (b * a) # evs)"
            using evs(2) by simp
          ultimately show ?thesis by blast
        qed
      qed
    qed
  qed
qed

lemma fetching_names_append:
  "fetching_names (xs @ ys) = fetching_names xs @ fetching_names ys"
  by (induction xs rule: fetching_names.induct) simp_all

lemma fetching_names_none:
  "\<forall>n. Fetching n \<notin> set evs \<Longrightarrow> fetching_names evs = []"
  by (induction evs rule: fetching_names.induct) auto

lemma fetch_player_stats_printed:
  "fetching_names (printed (snd (fetch_player_stats e name m b w))) = fetching_names (printed w)"
proof -
  obtain evs where evs: "printed (snd (retry_loop e name m b 1 None w)) = printed w @ evs"
      "\<forall>n. Fetching n \<notin> set evs"
    using retry_loop_printed by blast
  have "snd (fetch_player_stats e name m b w) = snd (retry_loop e name m b 1 None w)"
    by (simp add: fetch_player_stats_def split: prod.splits sum.splits)
  then show ?thesis
    by (simp add: evs(1) fetching_names_append fetching_names_none[OF evs(2)])
qed

lemma append_dropped_player_printed:
  "printed (append_dropped_player path name v) = printed v"
  by (simp add: append_dropped_player_def split: option.splits)

lemma process_player_attempts:
  "fetching_names (printed (snd (process_player e name rows w)))
     = fetching_names (printed w) @ [name]"
proof -
  let ?w0 = "w\<lparr>printed := printed w @ [Fetching name]\<rparr>"
  obtain r w1 where f: "fetch_player_stats e name 5 3 ?w0 = (r, w1)"
    by (cases "fetch_player_stats e name 5 3 ?w0")
  from fetch_player_stats_printed[of e name 5 3 ?w0] f
  have w1: "fetching_names (printed w1) = fetching_names (printed w) @ [name]"
    by (simp add: fetching_names_append)
  show ?thesis
    using f w1
    by (auto simp: process_player_def Let_def fetching_names_append append_dropped_player_printed
             split: sum.splits exn.splits)
qed

lemma build_loop_completes:
  assumes "\<forall>name w st w1. fetch_player_stats e name 5 3 w = (Inr st, w1) \<longrightarrow>
             set SKILLS \<subseteq> dom (skills st)"
  shows "\<exists>rows' w'. build_loop e names rows w = (Inr rows', w') \<and>
           fetching_names (printed w') = fetching_names (printed w) @ names"
proof (induction names arbitrary: rows w)
  case Nil
  then show ?case by simp
next
  case (Cons name names)
  let ?w0 = "w\<lparr>printed := printed w @ [Fetching name]\<rparr>"
  obtain r w1 where f: "fetch_player_stats e name 5 3 ?w0 = (r, w1)"
    by (cases "fetch_player_stats e name 5 3 ?w0")
  have "\<exists>rows1 v. process_player e name rows w = (Inr rows1, v)"
  proof (cases r)
    case (Inl x)
    with f process_player_isolates_raised[of e name w x w1 rows] show ?thesis by blast
  next
    case (Inr st)
    with f assms have "set SKILLS \<subseteq> dom (skills st)" by blast
    with f Inr process_player_adds_complete_row[of e name w st w1 rows] show ?thesis by blast
  qed
  then obtain rows1 v where p: "process_player e name rows w = (Inr rows1, v)" by blast
  from process_player_attempts[of e name rows w] p
  have v: "fetching_names (printed v) = fetching_names (printed w) @ [name]" by simp
  from Cons.IH[of rows1 v] obtain rows' w' where
    "build_loop e names rows1 v = (Inr rows', w')"
    "fetching_names (printed w') = fetching_names (printed v) @ names"
    by blast
  with p v show ?case by simp
qed

text \<open>With one candidate, \<^verbatim>\<open>build_database\<close> is its loop body on an empty list of
  rows; with more, the body runs on each candidate in turn as long as none ends in an
  exception.\<close>

lemma build_database_single:
  "build_database e [name] w = process_player e name [] w"
  by (simp add: build_database_def split: prod.splits sum.splits)

lemma build_database_next:
  "process_player e name [] w = (Inr rows, w') \<Longrightarrow>
     build_database e (name # names) w = build_loop e names rows w'"
  by (simp add: build_database_def)

end
